theory Spec2Isabelle
  imports Main
begin

section \<open>Python values\<close>

text \<open>
  A Python \<open>str\<close> is a sequence of Unicode code points and \<open>len\<close> counts code points, so a
  string is modelled as a list of code points (natural numbers). \<open>lit\<close> turns an ASCII
  literal into such a list. Python integers are unbounded: \<open>int\<close>.
\<close>

type_synonym codepoint = nat
type_synonym str = "codepoint list"

definition lit :: "string \<Rightarrow> str" where
  "lit s = map of_char s"

text \<open>A chat message is a \<open>dict[str, str]\<close>; its keys are the ASCII literals of the source.\<close>

type_synonym message = "string \<rightharpoonup> str"

text \<open>\<open>d.get(key, default)\<close>.\<close>

definition dict_get :: "(string \<rightharpoonup> 'v) \<Rightarrow> string \<Rightarrow> 'v \<Rightarrow> 'v" where
  "dict_get d k dflt = (case d k of None \<Rightarrow> dflt | Some v \<Rightarrow> v)"

text \<open>The dict literal \<open>{"role": r, "content": c}\<close>.\<close>

definition mk_message :: "string \<Rightarrow> str \<Rightarrow> message" where
  "mk_message r c = [''role'' \<mapsto> lit r, ''content'' \<mapsto> c]"

text \<open>\<open>sep.join(xs)\<close>.\<close>

fun join :: "str \<Rightarrow> str list \<Rightarrow> str" where
  "join sep [] = []"
| "join sep [x] = x"
| "join sep (x # y # ys) = x @ sep @ join sep (y # ys)"

text \<open>\<open>str(n)\<close> for an integer: decimal digits, with a leading minus sign when negative.\<close>

fun digits :: "nat \<Rightarrow> str" where
  "digits n = (if n < 10 then [48 + n] else digits (n div 10) @ [48 + n mod 10])"

declare digits.simps [simp del]

definition str_of_int :: "int \<Rightarrow> str" where
  "str_of_int i = (if i < 0 then 45 # digits (nat (- i)) else digits (nat i))"

text \<open>
  The slice \<open>xs[i:]\<close>: a negative start counts from the end and is clamped at the
  beginning, a start beyond the end gives the empty list.
\<close>

definition slice_from :: "int \<Rightarrow> 'a list \<Rightarrow> 'a list" where
  "slice_from i xs =
     (let n = int (length xs);
          start = (if i < 0 then max (n + i) 0 else min i n)
      in drop (nat start) xs)"

section \<open>context\_manager.py\<close>

definition CHARS_PER_TOKEN :: int where
  "CHARS_PER_TOKEN = 4"

definition estimate_tokens :: "str \<Rightarrow> int" where
  "estimate_tokens text = max 1 (int (length text) div CHARS_PER_TOKEN)"

text \<open>The loop \<open>for msg in messages: total += 4 + estimate_tokens(msg.get("content", ""))\<close>.\<close>

definition estimate_messages_tokens :: "message list \<Rightarrow> int" where
  "estimate_messages_tokens messages =
     foldl (\<lambda>total msg. total + (4 + estimate_tokens (dict_get msg ''content'' []))) 0 messages"

text \<open>One transcript entry, \<open>{"model": str, "round": int, "content": str}\<close>.\<close>

record entry =
  model :: str
  round_num :: int
  content :: str

definition render_entry :: "entry \<Rightarrow> str" where
  "render_entry e =
     (let header = lit ''['' @ model e @ lit '' - Round '' @ str_of_int (round_num e) @ lit '']''
      in header @ [58, 10] @ content e @ [10])"

definition build_transcript :: "entry list \<Rightarrow> str" where
  "build_transcript entries = join [10] (map render_entry entries)"

text \<open>
  The backwards walk of \<open>sliding_window\<close>: \<open>msgs\<close> is \<open>reversed(rest)\<close>, \<open>included\<close> grows at
  the front, and the loop breaks at the first message that does not fit.
\<close>

fun walk_back :: "int \<Rightarrow> message list \<Rightarrow> message list \<Rightarrow> message list" where
  "walk_back budget [] included = included"
| "walk_back budget (msg # msgs) included =
     (let cost = estimate_messages_tokens [msg]
      in if budget - cost < 0 then included
         else walk_back (budget - cost) msgs (msg # included))"

definition sliding_window :: "message list \<Rightarrow> int \<Rightarrow> message list" where
  "sliding_window messages limit =
     (if messages = [] then messages
      else
        let reserved = take 2 messages;
            rest = drop 2 messages;
            budget = limit - estimate_messages_tokens reserved - 64
        in if budget \<le> 0 then reserved
           else reserved @ walk_back budget (rev rest) [])"


text \<open>
  The summarizer is an external call: it takes the prompt messages, may change the outside
  world \<open>'w\<close>, and either returns a summary (\<open>Inr\<close>) or raises an exception (\<open>Inl\<close>, carrying
  the exception's text).
\<close>

type_synonym exn = str
type_synonym 'w summary_fn = "message list \<Rightarrow> 'w \<Rightarrow> (exn + str) \<times> 'w"

definition SUMMARIZER_PROMPT :: str where
  "SUMMARIZER_PROMPT =
     lit ''You are a concise summarizer. Compress the following debate '' @
     lit ''transcript into a brief summary that preserves every key argument, '' @
     lit ''point of agreement, and point of contention. Use bullet points.''"

text \<open>The marker of the fallback; U+2026 is the horizontal ellipsis.\<close>

definition TRUNCATION_MARKER :: str where
  "TRUNCATION_MARKER = [8230] @ lit ''[earlier transcript truncated]'' @ [8230, 10]"

definition summarize_transcript ::
  "entry list \<Rightarrow> 'w summary_fn \<Rightarrow> int \<Rightarrow> 'w \<Rightarrow> str \<times> 'w" where
  "summarize_transcript entries summary_func limit w =
     (let full = build_transcript entries;
          prompt_messages = [mk_message ''system'' SUMMARIZER_PROMPT, mk_message ''user'' full]
      in case summary_func prompt_messages w of
           (Inr summary, w') \<Rightarrow> (summary, w')
         | (Inl exc, w') \<Rightarrow>
             (let max_chars = limit * CHARS_PER_TOKEN
              in if int (length full) > max_chars
                 then (TRUNCATION_MARKER @ slice_from (- max_chars) full, w')
                 else (full, w')))"

definition prepare_messages ::
  "str \<Rightarrow> str \<Rightarrow> entry list \<Rightarrow> int \<Rightarrow> str \<Rightarrow> 'w summary_fn option \<Rightarrow> 'w
     \<Rightarrow> message list \<times> 'w" where
  "prepare_messages system_prompt user_query transcript_entries context_limit strategy
       summary_func w =
     (let messages0 =
            [mk_message ''system'' system_prompt,
             mk_message ''user'' (lit ''User Query: '' @ user_query)];
          messages =
            (if transcript_entries \<noteq> []
             then messages0 @
                  [mk_message ''user''
                     (lit ''Debate transcript so far:'' @ [10, 10] @
                      build_transcript transcript_entries)]
             else messages0);
          total = estimate_messages_tokens messages
      in if total \<le> context_limit then (messages, w)
         else
           (case (if strategy = lit ''summary'' then summary_func else None) of
              Some sf \<Rightarrow>
                (case summarize_transcript transcript_entries sf (context_limit div 2) w of
                   (summary, w') \<Rightarrow>
                     (let messages' =
                            [mk_message ''system'' system_prompt,
                             mk_message ''user'' (lit ''User Query: '' @ user_query),
                             mk_message ''user''
                               (lit ''Condensed debate summary:'' @ [10, 10] @ summary)]
                      in if estimate_messages_tokens messages' \<le> context_limit
                         then (messages', w')
                         else (sliding_window messages' context_limit, w')))
            | None \<Rightarrow> (sliding_window messages context_limit, w)))"

section \<open>ollama\_client.py\<close>

text \<open>
  The serving backend is outside the repository. \<open>chat\<close> is \<open>ollama.chat(stream=False)\<close>: it
  returns a response or raises. \<open>chat_streaming\<close> is \<open>ollama.chat(stream=True)\<close> consumed to
  its end: the chunks delivered, and the exception that ended the stream if one did (a
  call that fails at once delivers no chunk). A response is a nested dict.
\<close>

type_synonym response = "string \<rightharpoonup> (string \<rightharpoonup> str)"

record 'w backend =
  chat :: "str \<Rightarrow> message list \<Rightarrow> int \<Rightarrow> 'w \<Rightarrow> (exn + response) \<times> 'w"
  chat_streaming :: "str \<Rightarrow> message list \<Rightarrow> int \<Rightarrow> 'w \<Rightarrow> (response list \<times> exn option) \<times> 'w"

text \<open>\<open>r.get("message", {}).get("content", "")\<close>.\<close>

definition response_content :: "response \<Rightarrow> str" where
  "response_content r = dict_get (dict_get r ''message'' Map.empty) ''content'' []"

text \<open>The fragments \<open>chat_stream\<close> yields, in order, when it is consumed to its end.\<close>

definition chat_stream ::
  "'w backend \<Rightarrow> str \<Rightarrow> message list \<Rightarrow> int \<Rightarrow> 'w \<Rightarrow> str list \<times> 'w" where
  "chat_stream be mdl messages ctx w =
     (case chat_streaming be mdl messages ctx w of
        ((chunks, failure), w') \<Rightarrow>
          (filter (\<lambda>token. token \<noteq> []) (map response_content chunks) @
           (case failure of
              None \<Rightarrow> []
            | Some exc \<Rightarrow> [[10] @ lit ''[ERROR] Model '' @ mdl @ lit '' failed: '' @ exc @ [10]]),
           w'))"

definition chat_sync ::
  "'w backend \<Rightarrow> str \<Rightarrow> message list \<Rightarrow> int \<Rightarrow> 'w \<Rightarrow> str \<times> 'w" where
  "chat_sync be mdl messages ctx w =
     (case chat be mdl messages ctx w of
        (Inr resp, w') \<Rightarrow> (response_content resp, w')
      | (Inl exc, w') \<Rightarrow> (lit ''[ERROR] Model '' @ mdl @ lit '' failed: '' @ exc, w'))"

section \<open>debate\_engine.py: the language detector\<close>

text \<open>
  \<open>_SPANISH_RE\<close> is a character class, or a word of a fixed list between two \<open>\b\<close>, compiled
  with \<open>re.IGNORECASE\<close>. Its meaning is that of Python's \<open>re\<close> on \<open>str\<close> patterns:
  \<^item> \<open>\w\<close> is the underscore or an alphanumeric code point. The alphanumeric code points
    below 256 are written out; beyond them the table of the Unicode database is the
    parameter \<open>A\<close>, except for U+0130, U+0131 and U+017F, which are letters;
  \<^item> a cased pattern letter \<open>p\<close> matches \<open>c\<close> when the simple lowercase of \<open>c\<close> is \<open>p\<close> or
    belongs to the extra cases of \<open>p\<close>; the class matches \<open>c\<close> when the lowercase of \<open>c\<close> is
    in the class. \<open>tolower\<close> is the simple lowercase mapping wherever its value is below
    256, and the identity elsewhere (where the true value is no character of the
    pattern either);
  \<^item> \<open>\b\<close> holds between two positions of which exactly one is a \<open>\w\<close> character;
  \<^item> \<open>findall\<close> scans from the left, tries the alternatives in order at each position,
    resumes after each match, and returns the text of group 1 for every match (empty
    for a match of the class).
\<close>

definition latin1_isalnum :: "codepoint \<Rightarrow> bool" where
  "latin1_isalnum c =
     ((48 \<le> c \<and> c \<le> 57) \<or> (65 \<le> c \<and> c \<le> 90) \<or> (97 \<le> c \<and> c \<le> 122) \<or>
      c = 170 \<or> c = 178 \<or> c = 179 \<or> c = 181 \<or> c = 185 \<or> c = 186 \<or>
      (188 \<le> c \<and> c \<le> 190) \<or> (192 \<le> c \<and> c \<le> 214) \<or> (216 \<le> c \<and> c \<le> 246) \<or>
      (248 \<le> c \<and> c \<le> 255))"

definition is_word :: "(codepoint \<Rightarrow> bool) \<Rightarrow> codepoint \<Rightarrow> bool" where
  "is_word A c =
     (c = 95 \<or>
      (if c < 256 then latin1_isalnum c
       else c = 304 \<or> c = 305 \<or> c = 383 \<or> A c))"

definition tolower :: "codepoint \<Rightarrow> codepoint" where
  "tolower c =
     (if (65 \<le> c \<and> c \<le> 90) \<or> (192 \<le> c \<and> c \<le> 214) \<or> (216 \<le> c \<and> c \<le> 222) then c + 32
      else if c = 304 then 105
      else if c = 376 then 255
      else if c = 7838 then 223
      else if c = 8490 then 107
      else if c = 8491 then 229
      else c)"

text \<open>The extra cases of the letters of the pattern: dotless i for i, long s for s.\<close>

definition EXTRA_CASES :: "codepoint \<Rightarrow> codepoint list" where
  "EXTRA_CASES p = (if p = 105 then [305] else if p = 115 then [383] else [])"

definition SPANISH_CLASS :: "codepoint list" where
  "SPANISH_CLASS = [225, 233, 237, 243, 250, 252, 241, 191, 161]"

definition SPANISH_WORDS :: "str list" where
  "SPANISH_WORDS =
     [lit ''que'', lit ''est'' @ [225], lit ''es'', lit ''en'', lit ''de'', lit ''la'',
      lit ''el'', lit ''los'', lit ''las'', lit ''con'', lit ''por'', lit ''para'',
      lit ''una'', lit ''uno'', lit ''pero'', lit ''como'', lit ''m'' @ [225] @ lit ''s'',
      lit ''tambi'' @ [233] @ lit ''n'', lit ''sobre'', lit ''muy'', lit ''tiene'',
      lit ''hacer'', lit ''qu'' @ [233], lit ''c'' @ [243] @ lit ''mo'',
      lit ''cu'' @ [225] @ lit ''l'', lit ''esto'', lit ''eso'', lit ''son'', lit ''hay'',
      lit ''si'']"

definition class_matches :: "codepoint \<Rightarrow> bool" where
  "class_matches c = (tolower c \<in> set SPANISH_CLASS)"

definition lit_matches :: "codepoint \<Rightarrow> codepoint \<Rightarrow> bool" where
  "lit_matches p c = (tolower c = p \<or> tolower c \<in> set (EXTRA_CASES p))"

definition is_word_opt :: "(codepoint \<Rightarrow> bool) \<Rightarrow> codepoint option \<Rightarrow> bool" where
  "is_word_opt A co = (case co of None \<Rightarrow> False | Some c \<Rightarrow> is_word A c)"

text \<open>\<open>\b\<close> between the character before the position (if any) and the one at it (if any).\<close>

definition at_boundary :: "(codepoint \<Rightarrow> bool) \<Rightarrow> codepoint option \<Rightarrow> str \<Rightarrow> bool" where
  "at_boundary A prev cs =
     (is_word_opt A prev \<noteq> is_word_opt A (case cs of [] \<Rightarrow> None | c # _ \<Rightarrow> Some c))"

text \<open>
  A literal word against the text: the character last consumed and the rest of the text
  when every letter matches.
\<close>

fun match_literal :: "str \<Rightarrow> codepoint option \<Rightarrow> str \<Rightarrow> (codepoint option \<times> str) option" where
  "match_literal [] prev cs = Some (prev, cs)"
| "match_literal (p # ps) prev [] = None"
| "match_literal (p # ps) prev (c # cs) =
     (if lit_matches p c then match_literal ps (Some c) cs else None)"

text \<open>
  The alternation followed by \<open>\b\<close>: the first word of the list that matches with a
  boundary after it. The result is the matched text and the number of characters consumed.
\<close>

fun match_alternatives ::
  "(codepoint \<Rightarrow> bool) \<Rightarrow> str list \<Rightarrow> codepoint option \<Rightarrow> str \<Rightarrow> (str \<times> nat) option" where
  "match_alternatives A [] prev cs = None"
| "match_alternatives A (w # ws) prev cs =
     (case match_literal w prev cs of
        Some (prev', rest) \<Rightarrow>
          if at_boundary A prev' rest then Some (take (length w) cs, length w)
          else match_alternatives A ws prev cs
      | None \<Rightarrow> match_alternatives A ws prev cs)"

text \<open>One attempt of the whole pattern at a position: the text of group 1 and the number of
  characters consumed.\<close>

definition match_here ::
  "(codepoint \<Rightarrow> bool) \<Rightarrow> codepoint option \<Rightarrow> str \<Rightarrow> (str \<times> nat) option" where
  "match_here A prev cs =
     (case cs of
        [] \<Rightarrow> None
      | c # cs' \<Rightarrow>
          if class_matches c then Some ([], 1)
          else if at_boundary A prev cs then match_alternatives A SPANISH_WORDS prev cs
          else None)"

text \<open>
  The scan of \<open>findall\<close>. \<open>skip\<close> counts the characters of the current match that are still
  to be passed over: a match of \<open>n\<close> characters at a position sets it to \<open>n - 1\<close> for the
  positions after it.
\<close>

fun scan :: "(codepoint \<Rightarrow> bool) \<Rightarrow> nat \<Rightarrow> codepoint option \<Rightarrow> str \<Rightarrow> str list" where
  "scan A skip prev [] = []"
| "scan A (Suc k) prev (c # cs) = scan A k (Some c) cs"
| "scan A 0 prev (c # cs) =
     (case match_here A prev (c # cs) of
        None \<Rightarrow> scan A 0 (Some c) cs
      | Some (g, n) \<Rightarrow> g # scan A (n - 1) (Some c) cs)"

definition findall :: "(codepoint \<Rightarrow> bool) \<Rightarrow> str \<Rightarrow> str list" where
  "findall A text = scan A 0 None text"

definition detect_language :: "(codepoint \<Rightarrow> bool) \<Rightarrow> str \<Rightarrow> str" where
  "detect_language A text =
     (if length (findall A text) \<ge> 2 then lit ''Spanish'' else lit ''English'')"

section \<open>debate\_engine.py: the orchestrator\<close>

text \<open>
  The settings \<open>run\<close> reads from the configuration, under the names of its properties and
  keys. \<open>summary_model\<close> is \<open>None\<close> when the key is absent or null.
\<close>

record config =
  models :: "str list"
  rounds :: int
  instances :: int
  system_prompts :: "string \<rightharpoonup> str"
  context_limit :: int
  context_strategy :: str
  stream_output :: bool
  skeptic_agent :: bool
  summary_model :: "str option"
  save_logs :: bool

text \<open>
  The session. A \<open>DebateEntry\<close> has the fields of \<open>entry\<close>, and \<open>as_dict\<close> renames
  \<open>round_num\<close> to the key \<open>round\<close>, so the entries are passed on as they are.
\<close>

record engine =
  transcript :: "entry list"
  user_query :: str

text \<open>The exceptions a run can end with: an index out of range, markup the console
  rejects, and a failure to write the log.\<close>

datatype py_error = IndexError | MarkupError | OSError

text \<open>\<open>xs[i]\<close>: a negative index counts from the end, an index out of range raises.\<close>

definition list_index :: "'a list \<Rightarrow> int \<Rightarrow> py_error + 'a" where
  "list_index xs i =
     (if 0 \<le> i \<and> i < int (length xs) then Inr (xs ! nat i)
      else if i < 0 \<and> - int (length xs) \<le> i then Inr (xs ! nat (int (length xs) + i))
      else Inl IndexError)"

definition lang_note :: "str \<Rightarrow> str" where
  "lang_note language =
     [10, 10] @ lit ''IMPORTANT: You MUST respond ENTIRELY in '' @ language @ lit ''. '' @
     lit ''Do not switch languages under any circumstances.''"

text \<open>\<open>skeptic = self.config.skeptic_agent and n_instances > 1\<close>,
  \<open>is_this_skeptic = skeptic and idx == skeptic_idx\<close>.\<close>

definition is_this_skeptic :: "config \<Rightarrow> int \<Rightarrow> bool" where
  "is_this_skeptic cfg idx =
     (let n_instances = instances cfg;
          skeptic = (skeptic_agent cfg \<and> n_instances > 1);
          skeptic_idx = n_instances - 1
      in skeptic \<and> idx = skeptic_idx)"

text \<open>The chain of conditions that picks the system prompt of a debate turn.\<close>

definition select_prompt :: "(string \<rightharpoonup> str) \<Rightarrow> bool \<Rightarrow> bool \<Rightarrow> str" where
  "select_prompt prompts this_skeptic is_first =
     (if this_skeptic \<and> is_first then
        dict_get prompts ''skeptic_initial_round'' (dict_get prompts ''skeptic_round'' [])
      else if this_skeptic then
        dict_get prompts ''skeptic_round'' (dict_get prompts ''debate_round'' [])
      else if is_first then dict_get prompts ''initial_round'' []
      else dict_get prompts ''debate_round'' [])"

text \<open>\<open>_make_summary_func\<close>; \<open>a or b\<close> takes \<open>b\<close> when \<open>a\<close> is \<open>None\<close> or the empty string.\<close>

definition make_summary_func :: "'w backend \<Rightarrow> config \<Rightarrow> 'w summary_fn option" where
  "make_summary_func be cfg =
     (let fallback = (if models cfg \<noteq> [] then Some (hd (models cfg)) else None);
          chosen = (case summary_model cfg of
                      None \<Rightarrow> fallback
                    | Some s \<Rightarrow> if s \<noteq> [] then Some s else fallback)
      in case chosen of
           None \<Rightarrow> None
         | Some sm \<Rightarrow>
             Some (\<lambda>messages w.
                     case chat_sync be sm messages (context_limit cfg) w of
                       (summary, w') \<Rightarrow> (Inr summary, w')))"

text \<open>
  What a run shows goes through the console of the rich library, which is outside the
  repository and reads the markup of what it is given: a text whose markup it rejects (a
  closing tag that closes nothing, for one) makes \<open>console.print\<close> raise \<open>MarkupError\<close>.
  Which texts it rejects is the parameter \<open>markup_error\<close>. \<open>_save_log\<close> writes a file named
  after the clock and prints its path; it is taken as a whole, as an effect on the outside
  world that may raise.
\<close>

record 'w host =
  markup_error :: "str \<Rightarrow> bool"
  save_log :: "config \<Rightarrow> engine \<Rightarrow> 'w \<Rightarrow> py_error option \<times> 'w"

definition AGENT_COLORS :: "str list" where
  "AGENT_COLORS =
     [lit ''cyan'', lit ''yellow'', lit ''magenta'', lit ''blue'', lit ''green'', lit ''red'']"

definition AGENT_BOLD :: "str list" where
  "AGENT_BOLD =
     [lit ''bold cyan'', lit ''bold yellow'', lit ''bold magenta'', lit ''bold blue'',
      lit ''bold green'', lit ''bold red'']"

text \<open>The slice \<open>xs[:n]\<close>.\<close>

definition slice_to :: "int \<Rightarrow> 'a list \<Rightarrow> 'a list" where
  "slice_to n xs = (if n < 0 then take (length xs - nat (- n)) xs else take (nat n) xs)"

text \<open>The line of the header for agent \<open>i\<close> (counted from 0) with model \<open>m\<close>; U+26A1 is the
  high voltage sign.\<close>

definition agent_line :: "config \<Rightarrow> int \<Rightarrow> str \<Rightarrow> str" where
  "agent_line cfg i m =
     (let bold = AGENT_BOLD ! nat (i mod int (length AGENT_BOLD));
          is_sk = is_this_skeptic cfg i;
          tag = (if is_sk then lit '' [bold red]'' @ [9889] @ lit '' SKEPTIC[/bold red]'' else [])
      in lit ''  ['' @ bold @ lit '']Agent '' @ str_of_int (i + 1) @ lit ''[/'' @ bold @ lit '']'' @
         tag @ lit ''  : '' @ m)"

text \<open>\<open>for i, m in enumerate(models[:n_instances]): console.print(...)\<close>.\<close>

fun print_agents :: "'w host \<Rightarrow> config \<Rightarrow> int \<Rightarrow> str list \<Rightarrow> py_error option" where
  "print_agents con cfg i [] = None"
| "print_agents con cfg i (m # ms) =
     (if markup_error con (agent_line cfg i m) then Some MarkupError
      else print_agents con cfg (i + 1) ms)"

text \<open>The title of the panel that \<open>_generate\<close> prints before the call; U+2726 is the
  four-pointed star and U+2014 the em dash.\<close>

definition panel_title :: "str \<Rightarrow> int \<Rightarrow> int \<Rightarrow> bool \<Rightarrow> bool \<Rightarrow> str" where
  "panel_title mdl rnd agent_idx is_synthesis is_skeptic =
     (let color = AGENT_COLORS ! nat (agent_idx mod int (length AGENT_COLORS));
          bold = AGENT_BOLD ! nat (agent_idx mod int (length AGENT_BOLD))
      in if is_synthesis then
           lit ''[bold green] '' @ [10022] @ lit '' Agent '' @ str_of_int (agent_idx + 1) @
           [32, 8212, 32] @ mdl @ [32, 8212] @ lit '' Final Synthesis [/bold green]''
         else if is_skeptic then
           lit ''[bold red] '' @ [9889] @ lit '' SKEPTIC '' @ [8212] @ lit '' Agent '' @
           str_of_int (agent_idx + 1) @ lit '' ['' @ color @ lit '']('' @ mdl @ lit '')[/'' @
           color @ lit '']'' @ [32, 8212] @ lit '' Round '' @ str_of_int rnd @
           lit '' [/bold red]''
         else
           lit ''['' @ bold @ lit ''] Agent '' @ str_of_int (agent_idx + 1) @ lit '' ['' @
           color @ lit '']'' @ [8212, 32] @ mdl @ lit ''[/'' @ color @ lit '']'' @ [32, 8212] @
           lit '' Round '' @ str_of_int rnd @ lit '' ['' @ bold @ lit ''][/]'')"

text \<open>\<open>_stream_generate\<close> joins the fragments. They are shown through \<open>Text.append\<close>, which
  takes them as plain text, so nothing is raised on this path.\<close>

definition stream_generate ::
  "'w backend \<Rightarrow> config \<Rightarrow> str \<Rightarrow> message list \<Rightarrow> 'w \<Rightarrow> str \<times> 'w" where
  "stream_generate be cfg mdl messages w =
     (case chat_stream be mdl messages (context_limit cfg) w of
        (collected, w') \<Rightarrow> (concat collected, w'))"

text \<open>
  \<open>_generate\<close>: the panel with its title is printed first; then the reply is streamed, or
  fetched by \<open>chat_sync\<close> and printed as markup before it is returned.
\<close>

definition generate ::
  "'w host \<Rightarrow> 'w backend \<Rightarrow> config \<Rightarrow> str \<Rightarrow> message list \<Rightarrow> int \<Rightarrow> bool \<Rightarrow> int \<Rightarrow> bool
     \<Rightarrow> bool \<Rightarrow> 'w \<Rightarrow> (py_error + str) \<times> 'w" where
  "generate con be cfg mdl messages rnd stream agent_idx is_synthesis is_skeptic w =
     (if markup_error con (panel_title mdl rnd agent_idx is_synthesis is_skeptic)
      then (Inl MarkupError, w)
      else if stream then
        (case stream_generate be cfg mdl messages w of (reply, w') \<Rightarrow> (Inr reply, w'))
      else
        (case chat_sync be mdl messages (context_limit cfg) w of
           (reply, w') \<Rightarrow>
             if markup_error con reply then (Inl MarkupError, w') else (Inr reply, w')))"

text \<open>The body of the inner loop: one agent's turn in round \<open>rnd\<close>. The state is the
  transcript and the outside world; the first component is the exception raised, if any.\<close>

definition turn ::
  "'w host \<Rightarrow> 'w backend \<Rightarrow> config \<Rightarrow> str \<Rightarrow> str \<Rightarrow> int \<Rightarrow> int \<Rightarrow> entry list \<times> 'w
     \<Rightarrow> py_error option \<times> (entry list \<times> 'w)" where
  "turn con be cfg query note rnd idx s =
     (case s of (tr, w) \<Rightarrow>
        (case list_index (models cfg) idx of
           Inl e \<Rightarrow> (Some e, (tr, w))
         | Inr mdl \<Rightarrow>
             (let this_skeptic = is_this_skeptic cfg idx;
                  sp = select_prompt (system_prompts cfg) this_skeptic (rnd = 1)
              in case prepare_messages (sp @ note) query tr (context_limit cfg)
                        (context_strategy cfg) (make_summary_func be cfg) w of
                   (messages, w1) \<Rightarrow>
                     (case generate con be cfg mdl messages rnd (stream_output cfg) idx False
                             this_skeptic w1 of
                        (Inl e, w2) \<Rightarrow> (Some e, (tr, w2))
                      | (Inr reply, w2) \<Rightarrow>
                          (None,
                           (tr @ [\<lparr>model = mdl, round_num = rnd, content = reply\<rparr>], w2))))))"

text \<open>\<open>for idx in range(n_instances)\<close>.\<close>

fun agents_loop ::
  "'w host \<Rightarrow> 'w backend \<Rightarrow> config \<Rightarrow> str \<Rightarrow> str \<Rightarrow> int \<Rightarrow> int list \<Rightarrow> entry list \<times> 'w
     \<Rightarrow> py_error option \<times> (entry list \<times> 'w)" where
  "agents_loop con be cfg query note rnd [] s = (None, s)"
| "agents_loop con be cfg query note rnd (idx # idxs) s =
     (case turn con be cfg query note rnd idx s of
        (Some e, s') \<Rightarrow> (Some e, s')
      | (None, s') \<Rightarrow> agents_loop con be cfg query note rnd idxs s')"

text \<open>\<open>for rnd in range(1, n_rounds + 1)\<close>.\<close>

fun rounds_loop ::
  "'w host \<Rightarrow> 'w backend \<Rightarrow> config \<Rightarrow> str \<Rightarrow> str \<Rightarrow> int list \<Rightarrow> entry list \<times> 'w
     \<Rightarrow> py_error option \<times> (entry list \<times> 'w)" where
  "rounds_loop con be cfg query note [] s = (None, s)"
| "rounds_loop con be cfg query note (rnd # rnds) s =
     (case agents_loop con be cfg query note rnd [0 .. instances cfg - 1] s of
        (Some e, s') \<Rightarrow> (Some e, s')
      | (None, s') \<Rightarrow> rounds_loop con be cfg query note rnds s')"

text \<open>
  \<open>run\<close>: the exception raised or the text returned, with the session and the world as
  the run leaves them. The header prints the query and one line per agent; the other
  rules and lines of the display have fixed markup around numbers and the language name,
  which the console accepts, and are left out.
\<close>

definition run ::
  "(codepoint \<Rightarrow> bool) \<Rightarrow> 'w host \<Rightarrow> 'w backend \<Rightarrow> config \<Rightarrow> str \<Rightarrow> engine \<Rightarrow> 'w
     \<Rightarrow> (py_error + str) \<times> engine \<times> 'w" where
  "run A con be cfg query eng w =
     (let eng1 = eng\<lparr>user_query := query, transcript := []\<rparr>;
          n_rounds = rounds cfg;
          note = lang_note (detect_language A query)
      in if markup_error con (lit ''  Query    : '' @ query) then (Inl MarkupError, eng1, w)
         else
           (case print_agents con cfg 0 (slice_to (instances cfg) (models cfg)) of
              Some e \<Rightarrow> (Inl e, eng1, w)
            | None \<Rightarrow>
                (case rounds_loop con be cfg query note [1 .. n_rounds] (transcript eng1, w) of
                   (Some e, (tr, w1)) \<Rightarrow> (Inl e, eng1\<lparr>transcript := tr\<rparr>, w1)
                 | (None, (tr, w1)) \<Rightarrow>
                     (let synth_prompt =
                            dict_get (system_prompts cfg) ''final_synthesis'' [] @ note
                      in case list_index (models cfg) 0 of
                           Inl e \<Rightarrow> (Inl e, eng1\<lparr>transcript := tr\<rparr>, w1)
                         | Inr final_model \<Rightarrow>
                             (case prepare_messages synth_prompt query tr (context_limit cfg)
                                     (context_strategy cfg) (make_summary_func be cfg) w1 of
                                (messages, w2) \<Rightarrow>
                                  (case generate con be cfg final_model messages (n_rounds + 1)
                                          (stream_output cfg) 0 True False w2 of
                                     (Inl e, w3) \<Rightarrow> (Inl e, eng1\<lparr>transcript := tr\<rparr>, w3)
                                   | (Inr final_content, w3) \<Rightarrow>
                                       (let eng2 =
                                              eng1\<lparr>transcript :=
                                                     tr @ [\<lparr>model = final_model,
                                                            round_num = n_rounds + 1,
                                                            content = final_content\<rparr>]\<rparr>
                                        in if save_logs cfg then
                                             (case save_log con cfg eng2 w3 of
                                                (Some e, w4) \<Rightarrow> (Inl e, eng2, w4)
                                              | (None, w4) \<Rightarrow> (Inr final_content, eng2, w4))
                                           else (Inr final_content, eng2, w3))))))))"

section \<open>Notions of the specification\<close>

text \<open>The cost the estimator charges for one message.\<close>

definition message_cost :: "message \<Rightarrow> int" where
  "message_cost msg = 4 + estimate_tokens (dict_get msg ''content'' [])"

text \<open>The cost of a fragment as the specification words it: the ceiling of the content
  length over 4, plus an overhead of 4.\<close>

definition spec_fragment_cost :: "message \<Rightarrow> int" where
  "spec_fragment_cost msg = - ((- int (length (dict_get msg ''content'' []))) div 4) + 4"

text \<open>Three small messages and two transcript entries, used as concrete inputs.\<close>

definition msg_sys :: message where
  "msg_sys = mk_message ''system'' (lit ''Be brief.'')"

definition msg_query :: message where
  "msg_query = mk_message ''user'' (lit ''User Query: why?'')"

definition msg_old :: message where
  "msg_old = mk_message ''user'' (replicate 400 120)"

definition msg_new :: message where
  "msg_new = mk_message ''assistant'' (lit ''Because.'')"

text \<open>The naive composition of a turn: the system fragment, the fragment framing the user
  query and, when the transcript is not empty, one fragment rendering it.\<close>

definition naive_composition :: "str \<Rightarrow> str \<Rightarrow> entry list \<Rightarrow> message list" where
  "naive_composition sp q tr =
     [mk_message ''system'' sp, mk_message ''user'' (lit ''User Query: '' @ q)] @
     (if tr = [] then []
      else [mk_message ''user'' (lit ''Debate transcript so far:'' @ [10, 10] @ build_transcript tr)])"

text \<open>The fallback as the specification words it: the marker, then the last \<open>L \<times> 4\<close>
  characters of the rendered transcript.\<close>

definition last_chars :: "nat \<Rightarrow> str \<Rightarrow> str" where
  "last_chars n s = drop (length s - n) s"

definition spec_truncation :: "entry list \<Rightarrow> int \<Rightarrow> str" where
  "spec_truncation entries L = TRUNCATION_MARKER @ last_chars (nat (L * 4)) (build_transcript entries)"

text \<open>A transcript entry and two summarizers over a world that counts the calls made.\<close>

definition entry_one :: entry where
  "entry_one = \<lparr>model = lit ''m'', round_num = 1, content = lit ''ok''\<rparr>"

definition counting_summarizer :: "nat summary_fn" where
  "counting_summarizer msgs n = (Inr (lit ''s''), Suc n)"

definition failing_summarizer :: "nat summary_fn" where
  "failing_summarizer msgs n = (Inl (lit ''timeout''), Suc n)"

text \<open>Roles and prompt variants as the specification names them. The keys and fallbacks of
  each variant are those of the source.\<close>

datatype role = Debater | Skeptic
datatype prompt_variant = Skeptic_initial | Skeptic_followup | Debater_initial | Debater_followup

definition spec_role :: "bool \<Rightarrow> int \<Rightarrow> int \<Rightarrow> role" where
  "spec_role enabled n_instances i =
     (if enabled \<and> n_instances > 1 \<and> i = n_instances - 1 then Skeptic else Debater)"

fun spec_variant :: "role \<Rightarrow> bool \<Rightarrow> prompt_variant" where
  "spec_variant Skeptic True = Skeptic_initial"
| "spec_variant Skeptic False = Skeptic_followup"
| "spec_variant Debater True = Debater_initial"
| "spec_variant Debater False = Debater_followup"

fun variant_prompt :: "(string \<rightharpoonup> str) \<Rightarrow> prompt_variant \<Rightarrow> str" where
  "variant_prompt prompts Skeptic_initial =
     dict_get prompts ''skeptic_initial_round'' (dict_get prompts ''skeptic_round'' [])"
| "variant_prompt prompts Skeptic_followup =
     dict_get prompts ''skeptic_round'' (dict_get prompts ''debate_round'' [])"
| "variant_prompt prompts Debater_initial = dict_get prompts ''initial_round'' []"
| "variant_prompt prompts Debater_followup = dict_get prompts ''debate_round'' []"

text \<open>A backend that always fails (after delivering two chunks when streaming), over a
  world that counts the calls; and a configuration of four agents with the skeptic on.\<close>

definition failing_backend :: "nat backend" where
  "failing_backend =
     \<lparr>chat = (\<lambda>mdl msgs ctx n. (Inl (lit ''down''), Suc n)),
      chat_streaming =
        (\<lambda>mdl msgs ctx n.
           (([[''message'' \<mapsto> [''content'' \<mapsto> lit ''par'']], Map.empty], Some (lit ''down'')), Suc n))\<rparr>"

definition cfg_four :: config where
  "cfg_four =
     \<lparr>models = [lit ''a'', lit ''b'', lit ''c'', lit ''d''], rounds = 3, instances = 4,
      system_prompts = [''initial_round'' \<mapsto> lit ''I'', ''debate_round'' \<mapsto> lit ''D'',
                        ''skeptic_round'' \<mapsto> lit ''S''],
      context_limit = 4096, context_strategy = lit ''sliding_window'',
      stream_output = False, skeptic_agent = True, summary_model = None,
      save_logs = False\<rparr>"

text \<open>The structure of a finished run of \<open>R\<close> rounds and \<open>N\<close> agents: the round numbers and the
  models of its entries in call order.\<close>

definition expected_rounds :: "int \<Rightarrow> int \<Rightarrow> int list" where
  "expected_rounds R N = concat (map (\<lambda>r. replicate (nat N) r) [1 .. R]) @ [R + 1]"

definition expected_models :: "int \<Rightarrow> int \<Rightarrow> str list \<Rightarrow> str list" where
  "expected_models R N ms = concat (replicate (nat R) (take (nat N) ms)) @ [hd ms]"

text \<open>Two agents, one round, skeptic off.\<close>

definition cfg_two :: config where
  "cfg_two =
     \<lparr>models = [lit ''a'', lit ''b''], rounds = 1, instances = 2,
      system_prompts = Map.empty,
      context_limit = 4096, context_strategy = lit ''sliding_window'',
      stream_output = False, skeptic_agent = False, summary_model = None,
      save_logs = True\<rparr>"

text \<open>
  The count of the language detector as the specification words it. \<open>split_runs\<close> cuts a
  text into its maximal runs of \<open>\w\<close> characters and its single other characters; a run is
  a function word when it equals a word of the list, letter by letter, without regard to
  case. \<open>spec_count\<close> is the number of diacritic characters plus the number of whole-word
  matches. \<open>match_count\<close> counts every function word once and, outside the function words,
  every diacritic character.
\<close>

fun split_runs :: "(codepoint \<Rightarrow> bool) \<Rightarrow> str \<Rightarrow> str \<Rightarrow> str list" where
  "split_runs A acc [] = (if acc = [] then [] else [acc])"
| "split_runs A acc (c # cs) =
     (if is_word A c then split_runs A (acc @ [c]) cs
      else (if acc = [] then [] else [acc]) @ [c] # split_runs A [] cs)"

definition is_function_word :: "str \<Rightarrow> bool" where
  "is_function_word r = list_ex (\<lambda>w. list_all2 lit_matches w r) SPANISH_WORDS"

definition diacritics :: "str \<Rightarrow> nat" where
  "diacritics s = length (filter class_matches s)"

definition spec_count :: "(codepoint \<Rightarrow> bool) \<Rightarrow> str \<Rightarrow> nat" where
  "spec_count A text = diacritics text + length (filter is_function_word (split_runs A [] text))"

definition match_count :: "(codepoint \<Rightarrow> bool) \<Rightarrow> str \<Rightarrow> nat" where
  "match_count A text =
     (\<Sum>r\<leftarrow>split_runs A [] text. if is_function_word r then 1 else diacritics r)"

text \<open>Sample texts: the two of the specification, and the single word \<open>que\<close> with an acute accent.\<close>

definition text_que :: str where
  "text_que = lit ''qu'' @ [233]"

definition text_spanish :: str where
  "text_spanish = [191] @ lit ''Qu'' @ [233] @ lit '' es esto y por qu'' @ [233] @ lit ''?''"

definition text_english :: str where
  "text_english = lit ''What is this and why?''"

text \<open>
  A part of what the console rejects, for concrete inputs: in a text without backslashes,
  the first tag (a bracket, then a lower-case letter or one of \<open>#\<close>, \<open>/\<close>, \<open>@\<close>, then a closing
  bracket before any other opening one) is a closing tag, which then has nothing to close.
\<close>

definition tag_start :: "codepoint \<Rightarrow> bool" where
  "tag_start c = ((97 \<le> c \<and> c \<le> 122) \<or> c = 35 \<or> c = 47 \<or> c = 64)"

fun first_tag_closes :: "str \<Rightarrow> bool" where
  "first_tag_closes [] = False"
| "first_tag_closes [c] = False"
| "first_tag_closes (c # d # cs) =
     (if c = 91 \<and> tag_start d \<and> 93 \<in> set (takeWhile (\<lambda>x. x \<noteq> 91) cs) then d = 47
      else first_tag_closes (d # cs))"

definition closes_nothing :: "str \<Rightarrow> bool" where
  "closes_nothing s = (92 \<notin> set s \<and> first_tag_closes s)"

text \<open>Two hosts over a world that counts the calls: one whose console accepts every text,
  one that rejects the texts above; both save the log. And a backend that fails with a
  message holding a closing tag.\<close>

definition lenient_host :: "nat host" where
  "lenient_host = \<lparr>markup_error = (\<lambda>s. False), save_log = (\<lambda>cfg eng n. (None, n))\<rparr>"

definition strict_host :: "nat host" where
  "strict_host = \<lparr>markup_error = closes_nothing, save_log = (\<lambda>cfg eng n. (None, n))\<rparr>"

definition markup_backend :: "nat backend" where
  "markup_backend =
     \<lparr>chat = (\<lambda>mdl msgs ctx n. (Inl (lit ''[/x]''), Suc n)),
      chat_streaming = (\<lambda>mdl msgs ctx n. (([], Some (lit ''[/x]'')), Suc n))\<rparr>"

section \<open>Token estimation\<close>

lemma foldl_cost_shift:
  "foldl (\<lambda>total msg. total + (4 + estimate_tokens (dict_get msg ''content'' []))) a ms
     = a + sum_list (map message_cost ms)"
  by (induction ms arbitrary: a) (simp_all add: message_cost_def)

lemma estimate_messages_tokens_sum:
  "estimate_messages_tokens ms = sum_list (map message_cost ms)"
  by (simp add: estimate_messages_tokens_def foldl_cost_shift)

lemma estimate_messages_tokens_append:
  "estimate_messages_tokens (xs @ ys) = estimate_messages_tokens xs + estimate_messages_tokens ys"
  by (simp add: estimate_messages_tokens_sum)

lemma estimate_messages_tokens_single:
  "estimate_messages_tokens [m] = message_cost m"
  by (simp add: estimate_messages_tokens_sum)

lemma message_cost_ge5: "5 \<le> message_cost m"
  by (simp add: message_cost_def estimate_tokens_def)

lemma estimate_messages_tokens_lower:
  "5 * int (length ms) \<le> estimate_messages_tokens ms"
proof (induction ms)
  case Nil
  show ?case by (simp add: estimate_messages_tokens_sum)
next
  case (Cons m ms)
  have "5 \<le> message_cost m" by (rule message_cost_ge5)
  with Cons show ?case by (simp add: estimate_messages_tokens_sum)
qed

lemma walk_back_small: "budget < 5 \<Longrightarrow> walk_back budget msgs included = included"
proof (cases msgs)
  case Nil
  then show ?thesis by simp
next
  case (Cons m ms)
  assume "budget < 5"
  with message_cost_ge5[of m] have "budget - message_cost m < 0" by simp
  with Cons show ?thesis by (simp add: estimate_messages_tokens_single)
qed

lemma estimate_messages_tokens_zero: "(estimate_messages_tokens ms = 0) = (ms = [])"
  using estimate_messages_tokens_lower[of ms]
  by (cases ms) (auto simp: estimate_messages_tokens_sum)

lemma sliding_window_small_budget:
  "limit - estimate_messages_tokens (take 2 ms) - 64 < 5 \<Longrightarrow> sliding_window ms limit = take 2 ms"
  by (auto simp: sliding_window_def Let_def walk_back_small)

lemma cost_msg_sys: "message_cost msg_sys = 6"
  by (simp add: message_cost_def estimate_tokens_def CHARS_PER_TOKEN_def msg_sys_def
      mk_message_def dict_get_def lit_def)

lemma cost_msg_query: "message_cost msg_query = 8"
  by (simp add: message_cost_def estimate_tokens_def CHARS_PER_TOKEN_def msg_query_def
      mk_message_def dict_get_def lit_def)

lemma cost_msg_old: "message_cost msg_old = 104"
  by (simp add: message_cost_def estimate_tokens_def CHARS_PER_TOKEN_def msg_old_def
      mk_message_def dict_get_def)

lemma cost_msg_new: "message_cost msg_new = 6"
  by (simp add: message_cost_def estimate_tokens_def CHARS_PER_TOKEN_def msg_new_def
      mk_message_def dict_get_def lit_def)

lemmas sample_costs =
  estimate_messages_tokens_sum cost_msg_sys cost_msg_query cost_msg_old cost_msg_new

text \<open>
  Claim C3, as amended. The estimator charges a message the floor of its content length
  over 4, but at least 1, plus 4; and the cost of a list is the sum of the costs of its
  messages. (The claim has the ceiling instead of the floor with its minimum of 1.)
\<close>

theorem fragment_cost_floor_formula:
  "estimate_messages_tokens [msg]
     = max 1 (int (length (dict_get msg ''content'' [])) div 4) + 4
   \<and> estimate_messages_tokens msgs = (\<Sum>m\<leftarrow>msgs. estimate_messages_tokens [m])"
proof
  show "estimate_messages_tokens [msg]
          = max 1 (int (length (dict_get msg ''content'' [])) div 4) + 4"
    by (simp add: estimate_messages_tokens_def estimate_tokens_def CHARS_PER_TOKEN_def)
  show "estimate_messages_tokens msgs = (\<Sum>m\<leftarrow>msgs. estimate_messages_tokens [m])"
    by (simp add: estimate_messages_tokens_sum)
qed

text \<open>
  Claim C3 as stated fails: a content of 9 characters costs 2 + 4 = 6, where the ceiling
  of 9 / 4 plus 4 is 7.
\<close>

theorem fragment_cost_is_not_ceiling:
  "estimate_messages_tokens [msg_sys] = 6 \<and> spec_fragment_cost msg_sys = 7"
  by (simp add: estimate_messages_tokens_def estimate_tokens_def CHARS_PER_TOKEN_def
      spec_fragment_cost_def msg_sys_def mk_message_def dict_get_def lit_def)

text \<open>
  Claim C10. Every message costs at least 5, also one with empty or missing content; a
  list costs at least 5 times its length and costs 0 only when it is empty; and a budget
  below 5 admits no further fragment: the backwards walk adds nothing, and
  \<open>sliding_window\<close> returns the reserved fragments alone.
\<close>

theorem fragment_cost_at_least_five:
  "5 \<le> estimate_messages_tokens [msg]
   \<and> estimate_messages_tokens [mk_message r []] = 5
   \<and> 5 * int (length msgs) \<le> estimate_messages_tokens msgs
   \<and> ((estimate_messages_tokens msgs = 0) = (msgs = []))
   \<and> (budget < 5 \<longrightarrow> walk_back budget msgs included = included)
   \<and> (limit - estimate_messages_tokens (take 2 msgs) - 64 < 5
        \<longrightarrow> sliding_window msgs limit = take 2 msgs)"
proof (intro conjI impI)
  show "5 \<le> estimate_messages_tokens [msg]"
    by (simp add: estimate_messages_tokens_single message_cost_ge5)
  show "estimate_messages_tokens [mk_message r []] = 5"
    by (simp add: estimate_messages_tokens_def estimate_tokens_def CHARS_PER_TOKEN_def
        mk_message_def dict_get_def)
  show "5 * int (length msgs) \<le> estimate_messages_tokens msgs"
    by (rule estimate_messages_tokens_lower)
  show "(estimate_messages_tokens msgs = 0) = (msgs = [])"
    by (rule estimate_messages_tokens_zero)
next
  assume "budget < 5"
  then show "walk_back budget msgs included = included" by (rule walk_back_small)
next
  assume "limit - estimate_messages_tokens (take 2 msgs) - 64 < 5"
  then show "sliding_window msgs limit = take 2 msgs" by (rule sliding_window_small_budget)
qed

theorem fragment_cost_at_least_five_witness:
  "(4::int) < 5
   \<and> walk_back 4 [msg_new, msg_old] [] = []
   \<and> (82::int) - estimate_messages_tokens (take 2 [msg_sys, msg_query, msg_new]) - 64 < 5
   \<and> sliding_window [msg_sys, msg_query, msg_new] 82 = [msg_sys, msg_query]"
  using fragment_cost_at_least_five
          [of msg_sys "''user''" "[msg_sys, msg_query, msg_new]" 4 "[]" 82]
        fragment_cost_at_least_five
          [of msg_sys "''user''" "[msg_new, msg_old]" 4 "[]" 0]
  by (simp add: sample_costs)

section \<open>The recency window\<close>

lemma walk_back_shape:
  "0 \<le> b \<Longrightarrow> \<exists>k\<le>length xs. walk_back b xs inc = rev (take k xs) @ inc
      \<and> estimate_messages_tokens (take k xs) \<le> b
      \<and> (k < length xs \<longrightarrow> b - estimate_messages_tokens (take k xs) - message_cost (xs ! k) < 0)"
proof (induction xs arbitrary: b inc)
  case Nil
  then show ?case by (simp add: estimate_messages_tokens_sum)
next
  case (Cons x xs)
  show ?case
  proof (cases "b - message_cost x < 0")
    case True
    then have "walk_back b (x # xs) inc = inc" by (simp add: estimate_messages_tokens_single)
    with True Cons.prems show ?thesis
      by (intro exI[of _ 0]) (simp add: estimate_messages_tokens_sum)
  next
    case False
    then have nb: "0 \<le> b - message_cost x" by simp
    from Cons.IH[OF nb, of "x # inc"] obtain k where k: "k \<le> length xs"
      "walk_back (b - message_cost x) xs (x # inc) = rev (take k xs) @ x # inc"
      "estimate_messages_tokens (take k xs) \<le> b - message_cost x"
      "k < length xs \<longrightarrow> b - message_cost x - estimate_messages_tokens (take k xs) - message_cost (xs ! k) < 0"
      by blast
    from False have w: "walk_back b (x # xs) inc = walk_back (b - message_cost x) xs (x # inc)"
      by (simp add: estimate_messages_tokens_single)
    have e: "estimate_messages_tokens (take (Suc k) (x # xs))
               = message_cost x + estimate_messages_tokens (take k xs)"
      by (simp add: estimate_messages_tokens_sum)
    show ?thesis
    proof (intro exI[of _ "Suc k"] conjI)
      show "Suc k \<le> length (x # xs)" using k(1) by simp
      show "walk_back b (x # xs) inc = rev (take (Suc k) (x # xs)) @ inc"
        using w k(2) by simp
      show "estimate_messages_tokens (take (Suc k) (x # xs)) \<le> b"
        using k(3) e by simp
      show "Suc k < length (x # xs) \<longrightarrow>
            b - estimate_messages_tokens (take (Suc k) (x # xs)) - message_cost ((x # xs) ! Suc k) < 0"
        using k(4) e by (simp add: diff_diff_eq)
    qed
  qed
qed


text \<open>
  Claim C4. With at least two messages and any limit, also zero or negative,
  \<open>sliding_window\<close> returns a list that starts with the first two input messages
  unchanged; and when the limit does not exceed their cost (with the margin of 64) it
  returns exactly these two. The function is total: there is no error to raise.
\<close>

theorem sliding_window_keeps_reserved:
  "2 \<le> length msgs \<Longrightarrow>
     take 2 (sliding_window msgs limit) = take 2 msgs
     \<and> 2 \<le> length (sliding_window msgs limit)
     \<and> (limit \<le> estimate_messages_tokens (take 2 msgs) + 64
          \<longrightarrow> sliding_window msgs limit = take 2 msgs)"
  by (auto simp: sliding_window_def Let_def)

theorem sliding_window_keeps_reserved_witness:
  "2 \<le> length [msg_sys, msg_query, msg_old, msg_new]
   \<and> (- 7 :: int) \<le> estimate_messages_tokens (take 2 [msg_sys, msg_query, msg_old, msg_new]) + 64
   \<and> sliding_window [msg_sys, msg_query, msg_old, msg_new] (- 7) = [msg_sys, msg_query]
   \<and> sliding_window [msg_sys, msg_query, msg_old, msg_new] 0 = [msg_sys, msg_query]
   \<and> take 2 (sliding_window [msg_sys, msg_query, msg_old, msg_new] 5000) = [msg_sys, msg_query]"
  using sliding_window_keeps_reserved [of "[msg_sys, msg_query, msg_old, msg_new]" "- 7"]
        sliding_window_keeps_reserved [of "[msg_sys, msg_query, msg_old, msg_new]" 0]
        sliding_window_keeps_reserved [of "[msg_sys, msg_query, msg_old, msg_new]" 5000]
  by (simp add: sample_costs)

text \<open>
  Claim C5. Beyond the two reserved fragments, the output of \<open>sliding_window\<close> is a suffix
  of the remaining input, in the input's order: the input splits into the older fragments
  left out and the ones kept. The walk from the most recent fragment stops at the first
  one that overflows: when something is left out, the most recent fragment left out costs
  more than what remains of the budget (the limit, less the reserved cost, less 64, less
  the cost of what is kept); and what is kept fits that budget.
\<close>

theorem sliding_window_recent_suffix:
  assumes "2 \<le> length ms"
  shows "\<exists>older. drop 2 ms = older @ drop 2 (sliding_window ms limit)
     \<and> (older \<noteq> [] \<longrightarrow>
           limit - estimate_messages_tokens (take 2 ms) - 64
             - estimate_messages_tokens (drop 2 (sliding_window ms limit))
             - estimate_messages_tokens [last older] < 0)
     \<and> (drop 2 (sliding_window ms limit) = [] \<or>
          estimate_messages_tokens (drop 2 (sliding_window ms limit))
            \<le> limit - estimate_messages_tokens (take 2 ms) - 64)"
proof -
  define B where "B = limit - estimate_messages_tokens (take 2 ms) - 64"
  define rest where "rest = drop 2 ms"
  have ne: "ms \<noteq> []" using assms by auto
  have l2: "length (take 2 ms) = 2" using assms by simp
  show ?thesis
  proof (cases "B \<le> 0")
    case True
    then have sw: "sliding_window ms limit = take 2 ms"
      using ne by (simp add: sliding_window_def B_def Let_def)
    have kept: "drop 2 (sliding_window ms limit) = []" using sw l2 by simp
    have "rest \<noteq> [] \<longrightarrow> B - 0 - message_cost (last rest) < 0"
      using True message_cost_ge5[of "last rest"] by simp
    then show ?thesis
      unfolding kept using B_def rest_def
      by (intro exI[of _ rest]) (simp add: estimate_messages_tokens_sum)
  next
    case False
    then have pos: "0 \<le> B" by simp
    from walk_back_shape[OF pos, of "rev rest" "[]"] obtain k where k: "k \<le> length rest"
      "walk_back B (rev rest) [] = rev (take k (rev rest))"
      "estimate_messages_tokens (take k (rev rest)) \<le> B"
      "k < length rest \<longrightarrow> B - estimate_messages_tokens (take k (rev rest)) - message_cost (rev rest ! k) < 0"
      by auto
    have sw: "sliding_window ms limit = take 2 ms @ rev (take k (rev rest))"
      using False ne k(2) by (simp add: sliding_window_def B_def rest_def Let_def)
    have kept: "drop 2 (sliding_window ms limit) = rev (take k (rev rest))"
      using sw l2 by simp
    have kept': "rev (take k (rev rest)) = drop (length rest - k) rest"
      by (simp add: take_rev)
    have cost: "estimate_messages_tokens (rev (take k (rev rest))) = estimate_messages_tokens (take k (rev rest))"
      by (simp add: estimate_messages_tokens_sum rev_map[symmetric])
    let ?older = "take (length rest - k) rest"
    have split: "rest = ?older @ rev (take k (rev rest))" by (simp add: kept')
    have lastolder: "?older \<noteq> [] \<Longrightarrow> last ?older = rev rest ! k \<and> k < length rest"
    proof -
      assume a: "?older \<noteq> []"
      then have kl: "k < length rest" by auto
      have "last ?older = ?older ! (length ?older - 1)" using a by (simp add: last_conv_nth)
      also have "\<dots> = rest ! (length rest - k - 1)" using kl by simp
      also have "\<dots> = rev rest ! k" using kl by (simp add: rev_nth)
      finally show ?thesis using kl by simp
    qed
    show ?thesis
    proof (intro exI[of _ ?older] conjI impI)
      show "drop 2 ms = ?older @ drop 2 (sliding_window ms limit)"
        using split kept rest_def by simp
      show "drop 2 (sliding_window ms limit) = [] \<or>
          estimate_messages_tokens (drop 2 (sliding_window ms limit))
            \<le> limit - estimate_messages_tokens (take 2 ms) - 64"
        using k(3) kept cost B_def by simp
    next
      assume a: "?older \<noteq> []"
      from lastolder[OF a] k(4) show "limit - estimate_messages_tokens (take 2 ms) - 64
             - estimate_messages_tokens (drop 2 (sliding_window ms limit))
             - estimate_messages_tokens [last ?older] < 0"
        using kept cost B_def by (simp add: estimate_messages_tokens_single)
    qed
  qed
qed


theorem sliding_window_recent_suffix_witness:
  "2 \<le> length [msg_sys, msg_query, msg_new, msg_old, msg_new]
   \<and> sliding_window [msg_sys, msg_query, msg_new, msg_old, msg_new] 100
       = [msg_sys, msg_query, msg_new]
   \<and> (\<exists>older. drop 2 [msg_sys, msg_query, msg_new, msg_old, msg_new] = older @ [msg_new]
          \<and> (older \<noteq> [] \<longrightarrow>
                (100::int) - estimate_messages_tokens [msg_sys, msg_query] - 64
                  - estimate_messages_tokens [msg_new]
                  - estimate_messages_tokens [last older] < 0))"
proof -
  let ?ms = "[msg_sys, msg_query, msg_new, msg_old, msg_new]"
  have h: "2 \<le> length ?ms" by simp
  have e: "sliding_window ?ms 100 = [msg_sys, msg_query, msg_new]"
    by (simp add: sliding_window_def sample_costs)
  from sliding_window_recent_suffix [OF h, of 100] obtain older where
    "drop 2 ?ms = older @ drop 2 (sliding_window ?ms 100)"
    "older \<noteq> [] \<longrightarrow>
       100 - estimate_messages_tokens (take 2 ?ms) - 64
         - estimate_messages_tokens (drop 2 (sliding_window ?ms 100))
         - estimate_messages_tokens [last older] < 0"
    by blast
  then have "drop 2 ?ms = older @ [msg_new]
      \<and> (older \<noteq> [] \<longrightarrow>
            (100::int) - estimate_messages_tokens [msg_sys, msg_query] - 64
              - estimate_messages_tokens [msg_new]
              - estimate_messages_tokens [last older] < 0)"
    by (simp add: e)
  then show ?thesis using h e by blast
qed

section \<open>Turn composition and the summarizer fallback\<close>

lemma bt_one: "build_transcript [entry_one] = lit ''[m - Round 1]:'' @ [10] @ lit ''ok'' @ [10]"
  by (simp add: build_transcript_def render_entry_def entry_one_def str_of_int_def digits.simps lit_def)

text \<open>
  Claim C6. When the estimated cost of the naive composition is within the limit,
  \<open>prepare_messages\<close> returns exactly that composition and leaves the world as it was,
  whatever the strategy and the summarizer: the summarizer is not called, and the result
  is not what \<open>sliding_window\<close> would make of it.
\<close>

theorem prepare_messages_happy_path:
  "estimate_messages_tokens (naive_composition sp q tr) \<le> L \<Longrightarrow>
     prepare_messages sp q tr L strategy sf w = (naive_composition sp q tr, w)"
  by (cases "tr = []") (simp_all add: prepare_messages_def naive_composition_def Let_def)

theorem prepare_messages_happy_path_witness:
  "estimate_messages_tokens (naive_composition (lit ''Be brief.'') (lit ''why?'') [entry_one]) \<le> 29
   \<and> prepare_messages (lit ''Be brief.'') (lit ''why?'') [entry_one] 29 (lit ''summary'')
         (Some counting_summarizer) 0
       = (naive_composition (lit ''Be brief.'') (lit ''why?'') [entry_one], 0)
   \<and> length (naive_composition (lit ''Be brief.'') (lit ''why?'') [entry_one]) = 3
   \<and> length (sliding_window (naive_composition (lit ''Be brief.'') (lit ''why?'') [entry_one]) 29) = 2"
proof -
  have c: "estimate_messages_tokens (naive_composition (lit ''Be brief.'') (lit ''why?'') [entry_one]) = 29"
    by (simp add: naive_composition_def bt_one estimate_messages_tokens_def estimate_tokens_def
        CHARS_PER_TOKEN_def mk_message_def dict_get_def lit_def)
  then have h: "estimate_messages_tokens (naive_composition (lit ''Be brief.'') (lit ''why?'') [entry_one]) \<le> 29"
    by simp
  have s: "length (sliding_window (naive_composition (lit ''Be brief.'') (lit ''why?'') [entry_one]) 29) = 2"
    by (simp add: sliding_window_def naive_composition_def bt_one estimate_messages_tokens_def estimate_tokens_def
        CHARS_PER_TOKEN_def mk_message_def dict_get_def lit_def)
  show ?thesis
    using prepare_messages_happy_path [OF h, of "lit ''summary''" "Some counting_summarizer" 0] h s
    by (simp add: naive_composition_def)
qed

lemma length_marker: "length TRUNCATION_MARKER = 33"
  by (simp add: TRUNCATION_MARKER_def lit_def)

text \<open>
  Claim C7, as amended. When the summarizer raises, with a limit \<open>L \<ge> 1\<close>,
  \<open>summarize_transcript\<close> returns the rendered transcript itself if it has at most
  \<open>L \<times> 4\<close> characters, and otherwise the marker followed by its last \<open>L \<times> 4\<close> characters; the
  result is never longer than \<open>L \<times> 4\<close> plus the length of the marker, and the function
  returns: there is no error left to propagate.
\<close>

theorem summarize_fallback:
  assumes "1 \<le> L"
    and "sf [mk_message ''system'' SUMMARIZER_PROMPT, mk_message ''user'' (build_transcript entries)] w
           = (Inl exc, w')"
  shows "summarize_transcript entries sf L w
           = (if int (length (build_transcript entries)) \<le> L * 4 then build_transcript entries
              else spec_truncation entries L, w')
         \<and> int (length (fst (summarize_transcript entries sf L w)))
             \<le> L * 4 + int (length TRUNCATION_MARKER)"
proof -
  let ?full = "build_transcript entries"
  show ?thesis
  proof (cases "int (length ?full) \<le> L * 4")
    case True
    then show ?thesis using assms
      by (simp add: summarize_transcript_def Let_def CHARS_PER_TOKEN_def)
  next
    case False
    then have big: "L * 4 < int (length ?full)" by simp
    have sl: "slice_from (- (L * 4)) ?full = last_chars (nat (L * 4)) ?full"
      using big assms(1) by (simp add: slice_from_def last_chars_def Let_def nat_diff_distrib' max_def)
    have len: "int (length (last_chars (nat (L * 4)) ?full)) = L * 4"
      using big assms(1) by (simp add: last_chars_def)
    show ?thesis using False assms sl len
      by (simp add: summarize_transcript_def Let_def CHARS_PER_TOKEN_def spec_truncation_def)
  qed
qed

theorem summarize_fallback_witness:
  "(1::int) \<le> 2
   \<and> failing_summarizer
         [mk_message ''system'' SUMMARIZER_PROMPT, mk_message ''user'' (build_transcript [entry_one])] 0
       = (Inl (lit ''timeout''), 1)
   \<and> summarize_transcript [entry_one] failing_summarizer 2 0
       = (TRUNCATION_MARKER @ lit '' 1]:'' @ [10] @ lit ''ok'' @ [10], 1)
   \<and> summarize_transcript [entry_one] failing_summarizer 100 0 = (build_transcript [entry_one], 1)"
proof -
  have f: "failing_summarizer
         [mk_message ''system'' SUMMARIZER_PROMPT, mk_message ''user'' (build_transcript [entry_one])] 0
       = (Inl (lit ''timeout''), 1)"
    by (simp add: failing_summarizer_def)
  show ?thesis
    using summarize_fallback [of 2 failing_summarizer "[entry_one]" 0 "lit ''timeout''" 1]
          summarize_fallback [of 100 failing_summarizer "[entry_one]" 0 "lit ''timeout''" 1] f
    by (simp add: spec_truncation_def last_chars_def bt_one lit_def)
qed

text \<open>
  Claim C7 as stated fails: with a limit of 100 and a transcript of 18 characters the
  fallback returns the transcript as it is, without the marker.
\<close>

theorem summarize_fallback_not_always_marked:
  "summarize_transcript [entry_one] failing_summarizer 100 0 = (build_transcript [entry_one], 1)
   \<and> build_transcript [entry_one] \<noteq> spec_truncation [entry_one] 100"
  by (simp add: summarize_transcript_def failing_summarizer_def Let_def CHARS_PER_TOKEN_def
        spec_truncation_def bt_one TRUNCATION_MARKER_def lit_def)

section \<open>Roles and prompts\<close>

text \<open>
  Claim C2. The agent of index \<open>i\<close> is the skeptic exactly when the skeptic setting is on,
  there is more than one instance and \<open>i\<close> is the last index; with the setting off
  every agent is a debater. The system prompt of a turn is the variant given by the role
  and by whether the round is the first, and it is this prompt (with the language note)
  that the turn of agent \<open>i\<close> in round \<open>r\<close> composes its messages from.
\<close>

theorem role_and_prompt_variant:
  "is_this_skeptic cfg i = (spec_role (skeptic_agent cfg) (instances cfg) i = Skeptic)
   \<and> (spec_role (skeptic_agent cfg) (instances cfg) i = Skeptic
        \<longleftrightarrow> skeptic_agent cfg \<and> instances cfg > 1 \<and> i = instances cfg - 1)
   \<and> (\<not> skeptic_agent cfg \<longrightarrow> spec_role (skeptic_agent cfg) (instances cfg) i = Debater)
   \<and> select_prompt (system_prompts cfg) (is_this_skeptic cfg i) (r = 1)
       = variant_prompt (system_prompts cfg)
           (spec_variant (spec_role (skeptic_agent cfg) (instances cfg) i) (r = 1))
   \<and> (0 \<le> i \<and> i < int (length (models cfg)) \<longrightarrow>
        turn con be cfg query note r i (tr, w)
          = (case prepare_messages
                    (variant_prompt (system_prompts cfg)
                       (spec_variant (spec_role (skeptic_agent cfg) (instances cfg) i) (r = 1))
                     @ note)
                    query tr (context_limit cfg) (context_strategy cfg)
                    (make_summary_func be cfg) w of
               (messages, w1) \<Rightarrow>
                 (case generate con be cfg (models cfg ! nat i) messages r (stream_output cfg) i
                         False (spec_role (skeptic_agent cfg) (instances cfg) i = Skeptic) w1 of
                    (Inl e, w2) \<Rightarrow> (Some e, (tr, w2))
                  | (Inr reply, w2) \<Rightarrow>
                      (None,
                       (tr @ [\<lparr>model = models cfg ! nat i, round_num = r, content = reply\<rparr>],
                        w2)))))"
proof -
  have role: "is_this_skeptic cfg i = (spec_role (skeptic_agent cfg) (instances cfg) i = Skeptic)"
    by (simp add: is_this_skeptic_def spec_role_def Let_def)
  have sel: "select_prompt (system_prompts cfg) (is_this_skeptic cfg i) (r = 1)
       = variant_prompt (system_prompts cfg)
           (spec_variant (spec_role (skeptic_agent cfg) (instances cfg) i) (r = 1))"
    by (simp add: select_prompt_def is_this_skeptic_def spec_role_def Let_def)
  have t: "0 \<le> i \<and> i < int (length (models cfg)) \<longrightarrow>
        turn con be cfg query note r i (tr, w)
          = (case prepare_messages
                    (select_prompt (system_prompts cfg) (is_this_skeptic cfg i) (r = 1) @ note)
                    query tr (context_limit cfg) (context_strategy cfg)
                    (make_summary_func be cfg) w of
               (messages, w1) \<Rightarrow>
                 (case generate con be cfg (models cfg ! nat i) messages r (stream_output cfg) i
                         False (is_this_skeptic cfg i) w1 of
                    (Inl e, w2) \<Rightarrow> (Some e, (tr, w2))
                  | (Inr reply, w2) \<Rightarrow>
                      (None,
                       (tr @ [\<lparr>model = models cfg ! nat i, round_num = r, content = reply\<rparr>],
                        w2))))"
    by (simp add: turn_def list_index_def Let_def)
  have sel': "select_prompt (system_prompts cfg)
                (spec_role (skeptic_agent cfg) (instances cfg) i = Skeptic) (r = 1)
       = variant_prompt (system_prompts cfg)
           (spec_variant (spec_role (skeptic_agent cfg) (instances cfg) i) (r = 1))"
    using sel by (simp only: role)
  have t': "0 \<le> i \<and> i < int (length (models cfg)) \<longrightarrow>
        turn con be cfg query note r i (tr, w)
          = (case prepare_messages
                    (variant_prompt (system_prompts cfg)
                       (spec_variant (spec_role (skeptic_agent cfg) (instances cfg) i) (r = 1))
                     @ note)
                    query tr (context_limit cfg) (context_strategy cfg)
                    (make_summary_func be cfg) w of
               (messages, w1) \<Rightarrow>
                 (case generate con be cfg (models cfg ! nat i) messages r (stream_output cfg) i
                         False (spec_role (skeptic_agent cfg) (instances cfg) i = Skeptic) w1 of
                    (Inl e, w2) \<Rightarrow> (Some e, (tr, w2))
                  | (Inr reply, w2) \<Rightarrow>
                      (None,
                       (tr @ [\<lparr>model = models cfg ! nat i, round_num = r, content = reply\<rparr>],
                        w2))))"
    using t by (simp only: role sel')
  have iff: "spec_role (skeptic_agent cfg) (instances cfg) i = Skeptic
        \<longleftrightarrow> skeptic_agent cfg \<and> instances cfg > 1 \<and> i = instances cfg - 1"
    by (simp add: spec_role_def)
  have deb: "\<not> skeptic_agent cfg \<longrightarrow> spec_role (skeptic_agent cfg) (instances cfg) i = Debater"
    by (simp add: spec_role_def)
  from role iff deb sel t' show ?thesis by (intro conjI)
qed

theorem role_and_prompt_variant_witness:
  "is_this_skeptic cfg_four 3
   \<and> \<not> is_this_skeptic cfg_four 0 \<and> \<not> is_this_skeptic cfg_four 1 \<and> \<not> is_this_skeptic cfg_four 2
   \<and> spec_role (skeptic_agent cfg_four) (instances cfg_four) 3 = Skeptic
   \<and> \<not> skeptic_agent (cfg_four\<lparr>skeptic_agent := False\<rparr>)
   \<and> \<not> is_this_skeptic (cfg_four\<lparr>skeptic_agent := False\<rparr>) 3
   \<and> select_prompt (system_prompts cfg_four) (is_this_skeptic cfg_four 3) ((1::int) = 1) = lit ''S''
   \<and> select_prompt (system_prompts cfg_four) (is_this_skeptic cfg_four 3) ((2::int) = 1) = lit ''S''
   \<and> select_prompt (system_prompts cfg_four) (is_this_skeptic cfg_four 2) ((1::int) = 1) = lit ''I''
   \<and> select_prompt (system_prompts cfg_four) (is_this_skeptic cfg_four 2) ((2::int) = 1) = lit ''D''"
  using role_and_prompt_variant [of cfg_four 3 1 lenient_host failing_backend "[]" "[]" "[]" 0]
        role_and_prompt_variant [of cfg_four 2 2 lenient_host failing_backend "[]" "[]" "[]" 0]
        role_and_prompt_variant
          [of "cfg_four\<lparr>skeptic_agent := False\<rparr>" 3 1 lenient_host failing_backend "[]" "[]" "[]" 0]
  by (simp add: cfg_four_def spec_role_def dict_get_def is_this_skeptic_def select_prompt_def)

section \<open>The run\<close>

lemma title_a_accepted: "\<not> closes_nothing (panel_title (lit ''a'') 1 0 False False)"
  by (simp add: closes_nothing_def panel_title_def AGENT_COLORS_def AGENT_BOLD_def
      str_of_int_def digits.simps lit_def tag_start_def)

lemma diagnostic_rejected: "closes_nothing (lit ''[ERROR] Model '' @ lit ''a'' @ lit '' failed: '' @ lit ''[/x]'')"
  by (simp add: closes_nothing_def lit_def tag_start_def)

lemma query_rejected: "closes_nothing (lit ''  Query    : '' @ lit ''[/x]'')"
  by (simp add: closes_nothing_def lit_def tag_start_def)

lemma generate_shown:
  assumes "\<And>s. \<not> markup_error con s"
  shows "\<exists>reply w'. generate con be cfg mdl msgs rnd stream idx syn sk w = (Inr reply, w')"
  using assms by (simp add: generate_def split: prod.splits)

lemma turn_in_range:
  assumes "0 \<le> idx" "idx < int (length (models cfg))" and "\<And>s. \<not> markup_error con s"
  shows "\<exists>reply w'. turn con be cfg q lnote rnd idx (tr, w)
           = (None, (tr @ [\<lparr>model = models cfg ! nat idx, round_num = rnd, content = reply\<rparr>], w'))"
proof -
  let ?sk = "is_this_skeptic cfg idx"
  obtain messages w1 where
    p: "prepare_messages (select_prompt (system_prompts cfg) ?sk (rnd = 1) @ lnote) q tr
          (context_limit cfg) (context_strategy cfg) (make_summary_func be cfg) w = (messages, w1)"
    by (cases "prepare_messages (select_prompt (system_prompts cfg) ?sk (rnd = 1) @ lnote) q tr
          (context_limit cfg) (context_strategy cfg) (make_summary_func be cfg) w") blast
  from generate_shown[OF assms(3), of be cfg "models cfg ! nat idx" messages rnd
        "stream_output cfg" idx False ?sk w1]
  obtain reply w2 where
    g: "generate con be cfg (models cfg ! nat idx) messages rnd (stream_output cfg) idx False ?sk w1
          = (Inr reply, w2)" by blast
  have "turn con be cfg q lnote rnd idx (tr, w)
          = (None, (tr @ [\<lparr>model = models cfg ! nat idx, round_num = rnd, content = reply\<rparr>], w2))"
    using assms(1,2) p g by (simp add: turn_def list_index_def Let_def)
  then show ?thesis by blast
qed

lemma agents_loop_shape:
  assumes "\<forall>i\<in>set idxs. 0 \<le> i \<and> i < int (length (models cfg))"
    and "\<And>s. \<not> markup_error con s"
  shows "\<exists>new w'. agents_loop con be cfg q lnote rnd idxs (tr, w) = (None, (tr @ new, w'))
           \<and> map round_num new = replicate (length idxs) rnd
           \<and> map model new = map (\<lambda>i. models cfg ! nat i) idxs"
  using assms(1)
proof (induction idxs arbitrary: tr w)
  case Nil
  then show ?case by simp
next
  case (Cons i idxs)
  from Cons.prems have "0 \<le> i" "i < int (length (models cfg))" by simp_all
  from turn_in_range[OF this assms(2), of be q lnote rnd tr w] obtain reply w1 where
    t: "turn con be cfg q lnote rnd i (tr, w)
          = (None, (tr @ [\<lparr>model = models cfg ! nat i, round_num = rnd, content = reply\<rparr>], w1))"
    by blast
  from Cons.prems have "\<forall>i\<in>set idxs. 0 \<le> i \<and> i < int (length (models cfg))" by simp
  from Cons.IH[OF this, of "tr @ [\<lparr>model = models cfg ! nat i, round_num = rnd, content = reply\<rparr>]" w1]
  obtain new w2 where
    n: "agents_loop con be cfg q lnote rnd idxs
          (tr @ [\<lparr>model = models cfg ! nat i, round_num = rnd, content = reply\<rparr>], w1)
        = (None, ((tr @ [\<lparr>model = models cfg ! nat i, round_num = rnd, content = reply\<rparr>]) @ new, w2))"
       "map round_num new = replicate (length idxs) rnd"
       "map model new = map (\<lambda>i. models cfg ! nat i) idxs"
    by blast
  show ?case
    using t n
    by (intro exI[of _ "\<lparr>model = models cfg ! nat i, round_num = rnd, content = reply\<rparr> # new"]
              exI[of _ w2]) simp
qed

lemma map_nth_upto: "n \<le> length xs \<Longrightarrow> map (\<lambda>i. xs ! nat i) [0 .. int n - 1] = take n xs"
proof (induction n)
  case 0
  then show ?case by simp
next
  case (Suc n)
  then have IH: "map (\<lambda>i. xs ! nat i) [0 .. int n - 1] = take n xs" by simp
  have u: "[0 .. int (Suc n) - 1] = [0 .. int n - 1] @ [int n]"
    using upto_rec2[of 0 "int n"] by simp
  from Suc.prems have "n < length xs" by simp
  then show ?case using IH u by (simp add: take_Suc_conv_app_nth)
qed

lemma rounds_loop_shape:
  assumes "instances cfg \<le> int (length (models cfg))" and "\<And>s. \<not> markup_error con s"
  shows "\<exists>new w'. rounds_loop con be cfg q lnote rnds (tr, w) = (None, (tr @ new, w'))
           \<and> map round_num new = concat (map (\<lambda>r. replicate (nat (instances cfg)) r) rnds)
           \<and> map model new = concat (map (\<lambda>r. take (nat (instances cfg)) (models cfg)) rnds)"
proof (induction rnds arbitrary: tr w)
  case Nil
  then show ?case by simp
next
  case (Cons r rnds)
  let ?N = "instances cfg"
  have rng: "\<forall>i\<in>set [0 .. ?N - 1]. 0 \<le> i \<and> i < int (length (models cfg))"
    using assms(1) by auto
  from agents_loop_shape[OF rng assms(2), of be q lnote r tr w] obtain new1 w1 where
    a: "agents_loop con be cfg q lnote r [0 .. ?N - 1] (tr, w) = (None, (tr @ new1, w1))"
       "map round_num new1 = replicate (length [0 .. ?N - 1]) r"
       "map model new1 = map (\<lambda>i. models cfg ! nat i) [0 .. ?N - 1]"
    by blast
  have m: "map (\<lambda>i. models cfg ! nat i) [0 .. ?N - 1] = take (nat ?N) (models cfg)"
  proof (cases "0 \<le> ?N")
    case True
    then have "nat ?N \<le> length (models cfg)" using assms(1) by simp
    from map_nth_upto[OF this] True show ?thesis by simp
  next
    case False
    then show ?thesis by simp
  qed
  from Cons.IH[of "tr @ new1" w1] obtain new2 w2 where
    b: "rounds_loop con be cfg q lnote rnds (tr @ new1, w1) = (None, ((tr @ new1) @ new2, w2))"
       "map round_num new2 = concat (map (\<lambda>r. replicate (nat ?N) r) rnds)"
       "map model new2 = concat (map (\<lambda>r. take (nat ?N) (models cfg)) rnds)"
    by blast
  show ?case
    using a b m by (intro exI[of _ "new1 @ new2"] exI[of _ w2]) simp
qed

lemma length_concat_replicate:
  "length (concat (map (\<lambda>r. replicate n r) rs)) = length rs * n"
  by (induction rs) simp_all

lemma length_expected_rounds:
  "0 \<le> R \<Longrightarrow> 0 \<le> N \<Longrightarrow> int (length (expected_rounds R N)) = R * N + 1"
  by (simp add: expected_rounds_def length_concat_replicate nat_mult_distrib)

lemma concat_map_const: "concat (map (\<lambda>r. ys) rs) = concat (replicate (length rs) ys)"
  by (induction rs) simp_all

lemma print_agents_shown:
  "(\<And>s. \<not> markup_error con s) \<Longrightarrow> print_agents con cfg i ms = None"
  by (induction ms arbitrary: i) simp_all

text \<open>
  Where the console accepts every text it is given and the log, when enabled, is saved, a
  run of \<open>R \<ge> 1\<close> rounds and \<open>N \<ge> 1\<close> instances with at least \<open>N\<close> models returns, whatever
  the backend does and whatever the session held before: the transcript has exactly
  \<open>R \<times> N + 1\<close> entries, round by round with the agents in ascending order, then the
  synthesis entry of round \<open>R + 1\<close> by the first model, whose content is the text returned.
\<close>

lemma run_structure_when_shown:
  assumes "1 \<le> rounds cfg" and "1 \<le> instances cfg"
    and "instances cfg \<le> int (length (models cfg))"
    and shown: "\<And>s. \<not> markup_error con s"
    and saved: "\<And>e u. save_logs cfg \<Longrightarrow> fst (save_log con cfg e u) = None"
  shows "\<exists>final eng' w'.
           run A con be cfg query eng w = (Inr final, eng', w')
           \<and> int (length (transcript eng')) = rounds cfg * instances cfg + 1
           \<and> map round_num (transcript eng') = expected_rounds (rounds cfg) (instances cfg)
           \<and> map model (transcript eng')
               = expected_models (rounds cfg) (instances cfg) (models cfg)
           \<and> final = content (last (transcript eng'))
           \<and> round_num (last (transcript eng')) = rounds cfg + 1
           \<and> model (last (transcript eng')) = hd (models cfg)
           \<and> user_query eng' = query"
proof -
  let ?ln = "lang_note (detect_language A query)"
  from rounds_loop_shape[OF assms(3) shown, of be query ?ln "[1 .. rounds cfg]" "[]" w]
  obtain tr w1 where
    r: "rounds_loop con be cfg query ?ln [1 .. rounds cfg] ([], w) = (None, (tr, w1))"
       "map round_num tr = concat (map (\<lambda>r. replicate (nat (instances cfg)) r) [1 .. rounds cfg])"
       "map model tr = concat (map (\<lambda>r. take (nat (instances cfg)) (models cfg)) [1 .. rounds cfg])"
    by auto
  have ne: "models cfg \<noteq> []" using assms(2,3) by auto
  then have li: "list_index (models cfg) 0 = Inr (hd (models cfg))"
    by (cases "models cfg") (simp_all add: list_index_def)
  obtain messages w2 where
    p: "prepare_messages (dict_get (system_prompts cfg) ''final_synthesis'' [] @ ?ln) query tr
          (context_limit cfg) (context_strategy cfg) (make_summary_func be cfg) w1 = (messages, w2)"
    by (cases "prepare_messages (dict_get (system_prompts cfg) ''final_synthesis'' [] @ ?ln) query tr
          (context_limit cfg) (context_strategy cfg) (make_summary_func be cfg) w1") blast
  from generate_shown[OF shown, of be cfg "hd (models cfg)" messages "rounds cfg + 1"
        "stream_output cfg" 0 True False w2]
  obtain final w3 where
    g: "generate con be cfg (hd (models cfg)) messages (rounds cfg + 1) (stream_output cfg) 0
          True False w2 = (Inr final, w3)"
    by blast
  let ?last = "\<lparr>model = hd (models cfg), round_num = rounds cfg + 1, content = final\<rparr>"
  let ?eng = "eng\<lparr>user_query := query, transcript := tr @ [?last]\<rparr>"
  obtain w4 where s: "save_logs cfg \<Longrightarrow> save_log con cfg ?eng w3 = (None, w4)"
    using saved[of ?eng w3] by (cases "save_log con cfg ?eng w3") auto
  have run_eq: "run A con be cfg query eng w = (Inr final, ?eng, if save_logs cfg then w4 else w3)"
    using r(1) li p g s shown print_agents_shown[OF shown]
    by (simp add: run_def Let_def)
  have rn: "map round_num (tr @ [?last]) = expected_rounds (rounds cfg) (instances cfg)"
    using r(2) by (simp add: expected_rounds_def)
  have md: "map model (tr @ [?last]) = expected_models (rounds cfg) (instances cfg) (models cfg)"
    using r(3) assms(1) by (simp add: expected_models_def concat_map_const)
  have "int (length (map round_num (tr @ [?last]))) = rounds cfg * instances cfg + 1"
    unfolding rn using assms(1,2) by (simp add: length_expected_rounds)
  then have len: "int (length (tr @ [?last])) = rounds cfg * instances cfg + 1"
    by simp
  show ?thesis
    unfolding run_eq using rn md len
    by (intro exI[of _ final] exI[of _ ?eng] exI[of _ "if save_logs cfg then w4 else w3"]) simp
qed

text \<open>
  Claim C1 does not hold of the code for every query. The header of a run prints the
  query through the console, which reads it as markup: when the console rejects that
  line, \<open>run\<close> raises \<open>MarkupError\<close> before the first turn, with the transcript cleared and
  empty, and returns nothing. This is so whatever the numbers of rounds, instances and
  models are.
\<close>

theorem run_raises_on_rejected_query:
  "markup_error con (lit ''  Query    : '' @ query) \<Longrightarrow>
     run A con be cfg query eng w
       = (Inl MarkupError, eng\<lparr>user_query := query, transcript := []\<rparr>, w)"
  by (simp add: run_def Let_def)

theorem run_raises_on_rejected_query_witness:
  "1 \<le> rounds cfg_two \<and> 1 \<le> instances cfg_two
   \<and> instances cfg_two \<le> int (length (models cfg_two))
   \<and> markup_error strict_host (lit ''  Query    : '' @ lit ''[/x]'')
   \<and> run (\<lambda>c. False) strict_host failing_backend cfg_two (lit ''[/x]'')
         \<lparr>transcript = [entry_one], user_query = lit ''old''\<rparr> 0
       = (Inl MarkupError, \<lparr>transcript = [], user_query = lit ''[/x]''\<rparr>, 0)"
proof -
  have h: "markup_error strict_host (lit ''  Query    : '' @ lit ''[/x]'')"
    by (simp add: strict_host_def query_rejected)
  from run_raises_on_rejected_query [OF h, of "\<lambda>c. False" failing_backend cfg_two
         "\<lparr>transcript = [entry_one], user_query = lit ''old''\<rparr>" 0] h
  show ?thesis by (simp add: cfg_two_def)
qed

section \<open>Backend failures and the display\<close>

lemma prepare_messages_no_summary:
  "strategy \<noteq> lit ''summary'' \<Longrightarrow> snd (prepare_messages sp q tr L strategy sf w) = w"
  by (simp add: prepare_messages_def Let_def)

lemma strategy_two: "context_strategy cfg_two \<noteq> lit ''summary''"
  by (simp add: cfg_two_def lit_def)

lemma models_two:
  "list_index (models cfg_two) 0 = Inr (lit ''a'')"
  "list_index (models cfg_two) 1 = Inr (lit ''b'')"
  by (simp_all add: list_index_def cfg_two_def)

lemma query_why_accepted: "\<not> closes_nothing (lit ''  Query    : '' @ lit ''why?'')"
  by (simp add: closes_nothing_def lit_def tag_start_def)

lemma agent_lines_two:
  "print_agents strict_host cfg_two 0 (slice_to (instances cfg_two) (models cfg_two)) = None"
  by (simp add: cfg_two_def slice_to_def strict_host_def closes_nothing_def agent_line_def
      is_this_skeptic_def AGENT_BOLD_def str_of_int_def digits.simps lit_def tag_start_def)

lemma generate_rejected:
  "generate strict_host markup_backend cfg_two (lit ''a'') msgs 1 False 0 False False n
     = (Inl MarkupError, Suc n)"
  by (simp add: generate_def chat_sync_def markup_backend_def strict_host_def
      title_a_accepted diagnostic_rejected)

lemma generate_streamed:
  "generate strict_host markup_backend cfg_two (lit ''a'') msgs 1 True 0 False False n
     = (Inr ([10] @ lit ''[ERROR] Model '' @ lit ''a'' @ lit '' failed: '' @ lit ''[/x]'' @ [10]),
        Suc n)"
  by (simp add: generate_def stream_generate_def chat_stream_def markup_backend_def
      strict_host_def title_a_accepted)

lemma turn_rejected:
  "turn strict_host markup_backend cfg_two q lnote 1 0 (tr, n) = (Some MarkupError, (tr, Suc n))"
proof -
  let ?p = "prepare_messages
              (select_prompt (system_prompts cfg_two) (is_this_skeptic cfg_two 0) ((1::int) = 1) @ lnote)
              q tr (context_limit cfg_two) (context_strategy cfg_two)
              (make_summary_func markup_backend cfg_two) n"
  have "snd ?p = n" by (rule prepare_messages_no_summary[OF strategy_two])
  then obtain msgs where p: "?p = (msgs, n)" by (cases ?p) simp
  have so: "stream_output cfg_two = False" "is_this_skeptic cfg_two 0 = False"
    by (simp_all add: cfg_two_def is_this_skeptic_def)
  show ?thesis
    unfolding turn_def Let_def using p
    by (simp add: models_two so generate_rejected)
qed

text \<open>
  Claim C8 holds of \<open>chat_sync\<close> and \<open>chat_stream\<close> themselves and of the streaming path,
  and fails on the path without streaming. When the backend raises, \<open>chat_sync\<close> returns
  the diagnostic text naming the model and \<open>chat_stream\<close> yields the fragments received
  followed by the diagnostic fragment. With streaming, \<open>_generate\<close> returns that text as
  the content of the turn. Without streaming, \<open>_generate\<close> prints the text through the
  console first: it returns it when the console accepts it, and raises \<open>MarkupError\<close> when
  the console rejects it, so that the failed call is then not folded into the transcript.
\<close>

theorem failed_call_and_display:
  "(chat be mdl msgs ctx w = (Inl exc, w') \<longrightarrow>
      chat_sync be mdl msgs ctx w = (lit ''[ERROR] Model '' @ mdl @ lit '' failed: '' @ exc, w'))
   \<and> (chat_streaming be mdl msgs ctx w = ((chunks, Some exc), w') \<longrightarrow>
        chat_stream be mdl msgs ctx w
          = (filter (\<lambda>token. token \<noteq> []) (map response_content chunks) @
             [[10] @ lit ''[ERROR] Model '' @ mdl @ lit '' failed: '' @ exc @ [10]], w'))
   \<and> (chat_streaming be mdl msgs (context_limit cfg) w = ((chunks, Some exc), w')
        \<and> \<not> markup_error con (panel_title mdl rnd idx syn sk) \<longrightarrow>
        generate con be cfg mdl msgs rnd True idx syn sk w
          = (Inr (concat (filter (\<lambda>token. token \<noteq> []) (map response_content chunks)) @
                  [10] @ lit ''[ERROR] Model '' @ mdl @ lit '' failed: '' @ exc @ [10]), w'))
   \<and> (chat be mdl msgs (context_limit cfg) w = (Inl exc, w')
        \<and> \<not> markup_error con (panel_title mdl rnd idx syn sk)
        \<and> \<not> markup_error con (lit ''[ERROR] Model '' @ mdl @ lit '' failed: '' @ exc) \<longrightarrow>
        generate con be cfg mdl msgs rnd False idx syn sk w
          = (Inr (lit ''[ERROR] Model '' @ mdl @ lit '' failed: '' @ exc), w'))
   \<and> (chat be mdl msgs (context_limit cfg) w = (Inl exc, w')
        \<and> \<not> markup_error con (panel_title mdl rnd idx syn sk)
        \<and> markup_error con (lit ''[ERROR] Model '' @ mdl @ lit '' failed: '' @ exc) \<longrightarrow>
        generate con be cfg mdl msgs rnd False idx syn sk w = (Inl MarkupError, w'))"
proof (intro conjI impI)
  assume "chat be mdl msgs ctx w = (Inl exc, w')"
  then show "chat_sync be mdl msgs ctx w = (lit ''[ERROR] Model '' @ mdl @ lit '' failed: '' @ exc, w')"
    by (simp add: chat_sync_def)
next
  assume "chat_streaming be mdl msgs ctx w = ((chunks, Some exc), w')"
  then show "chat_stream be mdl msgs ctx w
          = (filter (\<lambda>token. token \<noteq> []) (map response_content chunks) @
             [[10] @ lit ''[ERROR] Model '' @ mdl @ lit '' failed: '' @ exc @ [10]], w')"
    by (simp add: chat_stream_def)
next
  assume "chat_streaming be mdl msgs (context_limit cfg) w = ((chunks, Some exc), w')
        \<and> \<not> markup_error con (panel_title mdl rnd idx syn sk)"
  then show "generate con be cfg mdl msgs rnd True idx syn sk w
          = (Inr (concat (filter (\<lambda>token. token \<noteq> []) (map response_content chunks)) @
                  [10] @ lit ''[ERROR] Model '' @ mdl @ lit '' failed: '' @ exc @ [10]), w')"
    by (simp add: generate_def stream_generate_def chat_stream_def)
next
  assume "chat be mdl msgs (context_limit cfg) w = (Inl exc, w')
        \<and> \<not> markup_error con (panel_title mdl rnd idx syn sk)
        \<and> \<not> markup_error con (lit ''[ERROR] Model '' @ mdl @ lit '' failed: '' @ exc)"
  then show "generate con be cfg mdl msgs rnd False idx syn sk w
          = (Inr (lit ''[ERROR] Model '' @ mdl @ lit '' failed: '' @ exc), w')"
    by (simp add: generate_def chat_sync_def)
next
  assume "chat be mdl msgs (context_limit cfg) w = (Inl exc, w')
        \<and> \<not> markup_error con (panel_title mdl rnd idx syn sk)
        \<and> markup_error con (lit ''[ERROR] Model '' @ mdl @ lit '' failed: '' @ exc)"
  then show "generate con be cfg mdl msgs rnd False idx syn sk w = (Inl MarkupError, w')"
    by (simp add: generate_def chat_sync_def)
qed

theorem failed_call_and_display_witness:
  "chat markup_backend (lit ''a'') [] (context_limit cfg_two) 0 = (Inl (lit ''[/x]''), 1)
   \<and> chat_streaming markup_backend (lit ''a'') [] (context_limit cfg_two) 0
       = (([], Some (lit ''[/x]'')), 1)
   \<and> \<not> markup_error strict_host (panel_title (lit ''a'') 1 0 False False)
   \<and> markup_error strict_host (lit ''[ERROR] Model '' @ lit ''a'' @ lit '' failed: '' @ lit ''[/x]'')
   \<and> chat_sync markup_backend (lit ''a'') [] (context_limit cfg_two) 0
       = (lit ''[ERROR] Model '' @ lit ''a'' @ lit '' failed: '' @ lit ''[/x]'', 1)
   \<and> generate strict_host markup_backend cfg_two (lit ''a'') [] 1 False 0 False False 0
       = (Inl MarkupError, 1)
   \<and> generate strict_host markup_backend cfg_two (lit ''a'') [] 1 True 0 False False 0
       = (Inr ([10] @ lit ''[ERROR] Model '' @ lit ''a'' @ lit '' failed: '' @ lit ''[/x]'' @ [10]), 1)
   \<and> run (\<lambda>c. False) strict_host markup_backend cfg_two (lit ''why?'')
         \<lparr>transcript = [], user_query = []\<rparr> 0
       = (Inl MarkupError, \<lparr>transcript = [], user_query = lit ''why?''\<rparr>, 1)"
proof -
  have c: "chat markup_backend (lit ''a'') [] (context_limit cfg_two) 0 = (Inl (lit ''[/x]''), 1)"
    and s: "chat_streaming markup_backend (lit ''a'') [] (context_limit cfg_two) 0
       = (([], Some (lit ''[/x]'')), 1)"
    by (simp_all add: markup_backend_def)
  have t: "\<not> markup_error strict_host (panel_title (lit ''a'') 1 0 False False)"
    by (simp add: strict_host_def title_a_accepted)
  have d: "markup_error strict_host (lit ''[ERROR] Model '' @ lit ''a'' @ lit '' failed: '' @ lit ''[/x]'')"
    by (simp add: strict_host_def diagnostic_rejected)
  have u: "[0 .. instances cfg_two - 1] = [0, 1]" "[1 .. rounds cfg_two] = [1]"
    by (simp_all add: cfg_two_def upto.simps)
  have q: "\<not> markup_error strict_host (lit ''  Query    : '' @ lit ''why?'')"
    by (simp add: strict_host_def query_why_accepted)
  have r: "run (\<lambda>c. False) strict_host markup_backend cfg_two (lit ''why?'')
         \<lparr>transcript = [], user_query = []\<rparr> 0
       = (Inl MarkupError, \<lparr>transcript = [], user_query = lit ''why?''\<rparr>, 1)"
    unfolding run_def Let_def
    by (simp add: q agent_lines_two u turn_rejected)
  from failed_call_and_display
         [of markup_backend "lit ''a''" "[]" "context_limit cfg_two" 0 "lit ''[/x]''" 1 "[]"
             cfg_two strict_host 1 0 False False]
       c s t d r
  show ?thesis by simp
qed

section \<open>The language detector\<close>

lemma is_word_latin1: "c < 256 \<Longrightarrow> latin1_isalnum c \<Longrightarrow> is_word A c"
  by (simp add: is_word_def)

lemma pattern_letter_is_word:
  "p \<in> {97, 98, 99, 100, 101, 104, 105, 108, 109, 110, 111, 112, 113, 114, 115, 116, 117,
          121, 225, 233, 243} \<Longrightarrow> is_word A p"
  by (elim insertE emptyE) (simp_all add: is_word_def latin1_isalnum_def)

lemma tolower_cases:
  "tolower c = c \<or> (65 \<le> c \<and> c \<le> 90) \<or> (192 \<le> c \<and> c \<le> 214) \<or> (216 \<le> c \<and> c \<le> 222)
     \<or> c = 304 \<or> tolower c \<in> {255, 223, 107, 229}"
  by (simp add: tolower_def)

lemma upper_is_word:
  assumes "(65 \<le> c \<and> c \<le> 90) \<or> (192 \<le> c \<and> c \<le> 214) \<or> (216 \<le> c \<and> c \<le> 222) \<or> c = 304"
  shows "is_word A c"
  using assms
proof (elim disjE)
  assume "65 \<le> c \<and> c \<le> 90"
  then have "c < 256" "latin1_isalnum c" by (simp_all add: latin1_isalnum_def)
  then show ?thesis by (rule is_word_latin1)
next
  assume "192 \<le> c \<and> c \<le> 214"
  then have "c < 256" "latin1_isalnum c" by (simp_all add: latin1_isalnum_def)
  then show ?thesis by (rule is_word_latin1)
next
  assume "216 \<le> c \<and> c \<le> 222"
  then have "c < 256" "latin1_isalnum c" by (simp_all add: latin1_isalnum_def)
  then show ?thesis by (rule is_word_latin1)
next
  assume "c = 304"
  then show ?thesis by (simp add: is_word_def)
qed

lemma tolower_small: "tolower c \<noteq> c \<Longrightarrow> tolower c < 256"
  by (auto simp: tolower_def split: if_splits)

lemma tolower_extra:
  assumes "tolower c = 305 \<or> tolower c = 383"
  shows "is_word A c"
proof -
  have "tolower c = c"
  proof (rule ccontr)
    assume "tolower c \<noteq> c"
    then have "tolower c < 256" by (rule tolower_small)
    with assms show False by auto
  qed
  with assms have "c = 305 \<or> c = 383" by simp
  then show ?thesis by (auto simp: is_word_def)
qed

lemma letter_matches_word:
  assumes "p \<in> {97, 98, 99, 100, 101, 104, 105, 108, 109, 110, 111, 112, 113, 114, 115, 116, 117,
          121, 225, 233, 243}" and "lit_matches p c"
  shows "is_word A c"
proof -
  from assms(2) have "tolower c = p \<or> (tolower c = 305 \<or> tolower c = 383)"
    by (auto simp: lit_matches_def EXTRA_CASES_def split: if_splits)
  then show ?thesis
  proof
    assume e: "tolower c = p"
    from assms(1) have np: "p \<notin> {255, 223, 107, 229}"
      by (elim insertE emptyE) simp_all
    from tolower_cases[of c] e np
    have "c = p \<or> ((65 \<le> c \<and> c \<le> 90) \<or> (192 \<le> c \<and> c \<le> 214) \<or> (216 \<le> c \<and> c \<le> 222) \<or> c = 304)"
      by auto
    then show ?thesis
      using pattern_letter_is_word[OF assms(1), of A] upper_is_word[of c A] by blast
  next
    assume "tolower c = 305 \<or> tolower c = 383"
    then show ?thesis by (rule tolower_extra)
  qed
qed

lemma pattern_letters:
  "w \<in> set SPANISH_WORDS \<Longrightarrow> p \<in> set w \<Longrightarrow>
     p \<in> {97, 98, 99, 100, 101, 104, 105, 108, 109, 110, 111, 112, 113, 114, 115, 116, 117,
          121, 225, 233, 243}"
  by (auto simp: SPANISH_WORDS_def lit_def)

lemma first_letters:
  "p # ps \<in> set SPANISH_WORDS \<Longrightarrow> p \<in> {113, 101, 100, 108, 99, 112, 117, 109, 116, 115, 104}"
  by (auto simp: SPANISH_WORDS_def lit_def)

lemma class_not_first_letter:
  assumes "p # ps \<in> set SPANISH_WORDS" "class_matches c"
  shows "\<not> lit_matches p c"
proof
  assume "lit_matches p c"
  then have "tolower c = p \<or> tolower c = 305 \<or> tolower c = 383"
    by (auto simp: lit_matches_def EXTRA_CASES_def split: if_splits)
  moreover from assms(2) have "tolower c \<in> {225, 233, 237, 243, 250, 252, 241, 191, 161}"
    by (simp add: class_matches_def SPANISH_CLASS_def)
  ultimately have "p \<in> {225, 233, 237, 243, 250, 252, 241, 191, 161}" by auto
  with first_letters[OF assms(1)] show False by auto
qed

lemma match_literal_SomeD:
  "match_literal w prev cs = Some (p', rest) \<Longrightarrow>
     \<exists>m. cs = m @ rest \<and> list_all2 lit_matches w m \<and> p' = (if m = [] then prev else Some (last m))"
proof (induction w prev cs rule: match_literal.induct)
  case (1 prev cs)
  then show ?case by simp
next
  case (2 p ps prev)
  then show ?case by simp
next
  case (3 p ps prev c cs)
  show ?case
  proof (cases "lit_matches p c")
    case True
    with 3 obtain m where m: "cs = m @ rest" "list_all2 lit_matches ps m"
      "p' = (if m = [] then Some c else Some (last m))" by auto
    show ?thesis
      using m True by (intro exI[of _ "c # m"]) simp
  next
    case False
    with 3 show ?thesis by simp
  qed
qed

lemma match_literal_SomeI:
  "list_all2 lit_matches w m \<Longrightarrow>
     match_literal w prev (m @ rest) = Some (if m = [] then prev else Some (last m), rest)"
proof (induction w arbitrary: m prev)
  case Nil
  then show ?case by simp
next
  case (Cons p ps)
  then obtain c m' where m: "m = c # m'" "lit_matches p c" "list_all2 lit_matches ps m'"
    by (cases m) auto
  from Cons.IH[OF m(3), of "Some c"] m show ?case by simp
qed

lemma words_nonempty: "w \<in> set SPANISH_WORDS \<Longrightarrow> 2 \<le> length w"
  by (auto simp: SPANISH_WORDS_def lit_def)

lemma matched_all_word:
  assumes "w \<in> set SPANISH_WORDS" "list_all2 lit_matches w m"
  shows "\<forall>c\<in>set m. is_word A c"
proof
  fix c assume "c \<in> set m"
  then obtain i where i: "i < length m" "m ! i = c" by (auto simp: in_set_conv_nth)
  from assms(2) i have "lit_matches (w ! i) c" "i < length w"
    by (auto simp: list_all2_conv_all_nth)
  moreover then have "w ! i \<in> set w" by simp
  ultimately show "is_word A c"
    using pattern_letters[OF assms(1)] letter_matches_word by blast
qed

lemma match_alternatives_SomeD:
  "match_alternatives A ws prev cs = Some (g, n) \<Longrightarrow>
     \<exists>w\<in>set ws. \<exists>p' rest. match_literal w prev cs = Some (p', rest) \<and> at_boundary A p' rest
        \<and> n = length w \<and> g = take (length w) cs"
  by (induction ws) (auto split: option.splits if_splits)

lemma match_alternatives_NoneD:
  "match_alternatives A ws prev cs = None \<Longrightarrow> w \<in> set ws \<Longrightarrow>
     match_literal w prev cs = Some (p', rest) \<Longrightarrow> \<not> at_boundary A p' rest"
  by (induction ws) (auto split: option.splits if_splits)

lemma split_runs_takeWhile:
  "split_runs A acc cs =
     (if acc @ takeWhile (is_word A) cs = [] then [] else [acc @ takeWhile (is_word A) cs]) @
     split_runs A [] (dropWhile (is_word A) cs)"
proof (induction cs arbitrary: acc)
  case Nil
  then show ?case by simp
next
  case (Cons c cs)
  show ?case
  proof (cases "is_word A c")
    case True
    then show ?thesis using Cons.IH[of "acc @ [c]"] by simp
  next
    case False
    then show ?thesis by simp
  qed
qed

lemma scan_skip:
  "scan A (length m) (Some c) (m @ rest) = scan A 0 (Some (last (c # m))) rest"
  by (induction m arbitrary: c) simp_all

lemma scan_step:
  "scan A 0 prev (c # cs) =
     (case match_here A prev (c # cs) of
        None \<Rightarrow> scan A 0 (Some c) cs
      | Some (g, n) \<Rightarrow> g # scan A (n - 1) (Some c) cs)"
  by simp

lemma scan_inside_run:
  "is_word A p \<Longrightarrow>
     length (scan A 0 (Some p) cs)
       = diacritics (takeWhile (is_word A) cs)
         + length (scan A 0 (Some (last (p # takeWhile (is_word A) cs))) (dropWhile (is_word A) cs))"
proof (induction cs arbitrary: p)
  case Nil
  then show ?case by (simp add: diacritics_def)
next
  case (Cons c cs)
  show ?case
  proof (cases "is_word A c")
    case True
    have nb: "\<not> at_boundary A (Some p) (c # cs)"
      using True Cons.prems by (simp add: at_boundary_def is_word_opt_def)
    have mh: "match_here A (Some p) (c # cs) = (if class_matches c then Some ([], 1) else None)"
      using nb by (simp add: match_here_def)
    from Cons.IH[OF True] True mh show ?thesis
      by (simp add: diacritics_def)
  next
    case False
    then show ?thesis by (simp add: diacritics_def)
  qed
qed

lemma no_word_at_nonword:
  assumes "\<not> is_word A c"
  shows "match_alternatives A SPANISH_WORDS prev (c # cs) = None"
proof (cases "match_alternatives A SPANISH_WORDS prev (c # cs)")
  case None
  then show ?thesis .
next
  case (Some gn)
  obtain g n where "gn = (g, n)" by (cases gn)
  with Some match_alternatives_SomeD[of A SPANISH_WORDS prev "c # cs" g n]
  obtain w p' rest where w: "w \<in> set SPANISH_WORDS" "match_literal w prev (c # cs) = Some (p', rest)"
    by blast
  from match_literal_SomeD[OF w(2)] obtain m where m: "c # cs = m @ rest" "list_all2 lit_matches w m"
    by blast
  from words_nonempty[OF w(1)] m(2) have "m \<noteq> []" by (auto simp: list_all2_Nil2)
  with m(1) have "c \<in> set m" by (cases m) auto
  with matched_all_word[OF w(1) m(2), of A] assms show ?thesis by blast
qed

lemma scan_at_nonword:
  assumes "\<not> is_word A c"
  shows "length (scan A 0 prev (c # cs))
           = (if class_matches c then 1 else 0) + length (scan A 0 (Some c) cs)"
proof -
  have "match_here A prev (c # cs) = (if class_matches c then Some ([], 1) else None)"
    using no_word_at_nonword[OF assms] by (simp add: match_here_def)
  then show ?thesis by simp
qed

lemma takeWhile_append_stop:
  assumes "\<forall>x\<in>set m. P x" and "rest = [] \<or> \<not> P (hd rest)"
  shows "takeWhile P (m @ rest) = m"
proof -
  have "takeWhile P rest = []" using assms(2) by (cases rest) auto
  then show ?thesis using assms(1) by (simp add: takeWhile_append2)
qed

lemma boundary_after_word:
  "d = [] \<or> \<not> is_word A (hd d) \<Longrightarrow> is_word A l \<Longrightarrow> at_boundary A (Some l) d"
  by (cases d) (simp_all add: at_boundary_def is_word_opt_def)

lemma word_match_iff:
  assumes "w \<in> set SPANISH_WORDS"
  shows "(\<exists>p' rest. match_literal w prev cs = Some (p', rest) \<and> at_boundary A p' rest)
           \<longleftrightarrow> list_all2 lit_matches w (takeWhile (is_word A) cs)"
proof
  assume "\<exists>p' rest. match_literal w prev cs = Some (p', rest) \<and> at_boundary A p' rest"
  then obtain p' rest where ml: "match_literal w prev cs = Some (p', rest)"
    and bd: "at_boundary A p' rest" by blast
  from match_literal_SomeD[OF ml] obtain m where m: "cs = m @ rest" "list_all2 lit_matches w m"
    "p' = (if m = [] then prev else Some (last m))" by blast
  from words_nonempty[OF assms] m(2) have ne: "m \<noteq> []" by (auto simp: list_all2_Nil2)
  have aw: "\<forall>c\<in>set m. is_word A c" by (rule matched_all_word[OF assms m(2)])
  with ne have "is_word A (last m)" by simp
  with bd m(3) ne have "rest = [] \<or> \<not> is_word A (hd rest)"
    by (cases rest) (simp_all add: at_boundary_def is_word_opt_def)
  from takeWhile_append_stop[OF aw this] m(1) have "takeWhile (is_word A) cs = m" by simp
  with m(2) show "list_all2 lit_matches w (takeWhile (is_word A) cs)" by simp
next
  let ?r = "takeWhile (is_word A) cs" and ?d = "dropWhile (is_word A) cs"
  assume la: "list_all2 lit_matches w ?r"
  from words_nonempty[OF assms] la have ne: "?r \<noteq> []" by (auto simp: list_all2_Nil2)
  have cs: "cs = ?r @ ?d" by simp
  from match_literal_SomeI[OF la, of prev ?d] ne
  have ml: "match_literal w prev cs = Some (Some (last ?r), ?d)" by simp
  have "last ?r \<in> set ?r" using ne by simp
  then have lw: "is_word A (last ?r)" by (rule set_takeWhileD[THEN conjunct2])
  have "?d = [] \<or> \<not> is_word A (hd ?d)" using hd_dropWhile[of "is_word A" cs] by blast
  then have "at_boundary A (Some (last ?r)) ?d" using lw by (rule boundary_after_word)
  with ml show "\<exists>p' rest. match_literal w prev cs = Some (p', rest) \<and> at_boundary A p' rest"
    by blast
qed

lemma alternatives_None_iff:
  "match_alternatives A SPANISH_WORDS prev cs = None
     \<longleftrightarrow> \<not> is_function_word (takeWhile (is_word A) cs)"
proof
  assume n: "match_alternatives A SPANISH_WORDS prev cs = None"
  show "\<not> is_function_word (takeWhile (is_word A) cs)"
  proof
    assume "is_function_word (takeWhile (is_word A) cs)"
    then obtain w where w: "w \<in> set SPANISH_WORDS"
      "list_all2 lit_matches w (takeWhile (is_word A) cs)"
      by (auto simp: is_function_word_def list_ex_iff)
    from word_match_iff[OF w(1), of prev cs A] w(2) obtain p' rest where
      "match_literal w prev cs = Some (p', rest)" "at_boundary A p' rest" by blast
    with match_alternatives_NoneD[OF n w(1)] show False by blast
  qed
next
  assume nf: "\<not> is_function_word (takeWhile (is_word A) cs)"
  show "match_alternatives A SPANISH_WORDS prev cs = None"
  proof (cases "match_alternatives A SPANISH_WORDS prev cs")
    case None
    then show ?thesis .
  next
    case (Some gn)
    obtain g n where "gn = (g, n)" by (cases gn)
    with Some match_alternatives_SomeD[of A SPANISH_WORDS prev cs g n]
    obtain w p' rest where w: "w \<in> set SPANISH_WORDS"
      "match_literal w prev cs = Some (p', rest)" "at_boundary A p' rest" by blast
    with word_match_iff[OF w(1), of prev cs A]
    have "list_all2 lit_matches w (takeWhile (is_word A) cs)" by blast
    with w(1) nf show ?thesis by (auto simp: is_function_word_def list_ex_iff)
  qed
qed

lemma alternatives_Some_length:
  assumes "match_alternatives A SPANISH_WORDS prev cs = Some (g, n)"
  shows "n = length (takeWhile (is_word A) cs)"
proof -
  from match_alternatives_SomeD[OF assms]
  obtain w p' rest where w: "w \<in> set SPANISH_WORDS"
    "match_literal w prev cs = Some (p', rest)" "at_boundary A p' rest" "n = length w" by blast
  with word_match_iff[OF w(1), of prev cs A]
  have "list_all2 lit_matches w (takeWhile (is_word A) cs)" by blast
  then show ?thesis using w(4) by (simp add: list_all2_lengthD)
qed

lemma class_start_not_function_word:
  assumes "class_matches c"
  shows "\<not> is_function_word (c # cs)"
proof
  assume "is_function_word (c # cs)"
  then obtain w where w: "w \<in> set SPANISH_WORDS" "list_all2 lit_matches w (c # cs)"
    by (auto simp: is_function_word_def list_ex_iff)
  from w(2) obtain p ps where "w = p # ps" "lit_matches p c" by (cases w) auto
  with class_not_first_letter[of p ps c] w(1) assms show False by simp
qed

lemma scan_at_run_start:
  assumes "\<not> is_word_opt A prev" and "is_word A c"
  shows "length (scan A 0 prev (c # cs))
           = (if is_function_word (takeWhile (is_word A) (c # cs)) then 1
              else diacritics (takeWhile (is_word A) (c # cs)))
             + length (scan A 0 (Some (last (takeWhile (is_word A) (c # cs))))
                         (dropWhile (is_word A) (c # cs)))"
proof -
  let ?tw = "takeWhile (is_word A) cs" and ?dw = "dropWhile (is_word A) cs"
  have r: "takeWhile (is_word A) (c # cs) = c # ?tw" "dropWhile (is_word A) (c # cs) = ?dw"
    using assms(2) by simp_all
  have inside: "length (scan A 0 (Some c) cs)
                  = diacritics ?tw + length (scan A 0 (Some (last (c # ?tw))) ?dw)"
    by (rule scan_inside_run[OF assms(2)])
  show ?thesis
  proof (cases "class_matches c")
    case True
    have "match_here A prev (c # cs) = Some ([], 1)" using True by (simp add: match_here_def)
    then have "length (scan A 0 prev (c # cs)) = 1 + length (scan A 0 (Some c) cs)" by simp
    moreover have "\<not> is_function_word (c # ?tw)" by (rule class_start_not_function_word[OF True])
    moreover have "diacritics (c # ?tw) = 1 + diacritics ?tw" using True by (simp add: diacritics_def)
    ultimately show ?thesis unfolding r using inside by simp
  next
    case False
    have bd: "at_boundary A prev (c # cs)"
      using assms by (simp add: at_boundary_def is_word_opt_def)
    have mh: "match_here A prev (c # cs) = match_alternatives A SPANISH_WORDS prev (c # cs)"
      using False bd by (simp add: match_here_def)
    have d0: "diacritics (c # ?tw) = diacritics ?tw" using False by (simp add: diacritics_def)
    show ?thesis
    proof (cases "match_alternatives A SPANISH_WORDS prev (c # cs)")
      case None
      with alternatives_None_iff[of A prev "c # cs"] have nf: "\<not> is_function_word (c # ?tw)"
        using assms(2) by simp
      from None mh have "length (scan A 0 prev (c # cs)) = length (scan A 0 (Some c) cs)" by simp
      then show ?thesis unfolding r using nf d0 inside by simp
    next
      case (Some gn)
      obtain g n where gn: "gn = (g, n)" by (cases gn)
      from Some gn alternatives_Some_length[of A prev "c # cs" g n]
      have n: "n = Suc (length ?tw)" using assms(2) by simp
      from Some alternatives_None_iff[of A prev "c # cs"] have f: "is_function_word (c # ?tw)"
        using assms(2) by simp
      have "scan A 0 prev (c # cs) = g # scan A (length ?tw) (Some c) cs"
        using Some gn mh n by simp
      also have "scan A (length ?tw) (Some c) cs = scan A (length ?tw) (Some c) (?tw @ ?dw)"
        by simp
      also have "\<dots> = scan A 0 (Some (last (c # ?tw))) ?dw" by (rule scan_skip)
      finally show ?thesis unfolding r using f by simp
    qed
  qed
qed

lemma single_not_function_word: "\<not> is_function_word [c]"
proof
  assume "is_function_word [c]"
  then obtain w where w: "w \<in> set SPANISH_WORDS" "list_all2 lit_matches w [c]"
    by (auto simp: is_function_word_def list_ex_iff)
  from w(2) have "length w = 1" by (simp add: list_all2_lengthD)
  with words_nonempty[OF w(1)] show False by simp
qed

lemma scan_count:
  "\<not> (is_word_opt A prev \<and> cs \<noteq> [] \<and> is_word A (hd cs)) \<Longrightarrow>
     length (scan A 0 prev cs)
       = (\<Sum>r\<leftarrow>split_runs A [] cs. if is_function_word r then 1 else diacritics r)"
proof (induction cs arbitrary: prev rule: length_induct)
  case (1 cs)
  show ?case
  proof (cases cs)
    case Nil
    then show ?thesis by simp
  next
    case (Cons c cs')
    show ?thesis
    proof (cases "is_word A c")
      case False
      have "length cs' < length cs" using Cons by simp
      with 1(1) have IH: "length (scan A 0 (Some c) cs')
          = (\<Sum>r\<leftarrow>split_runs A [] cs'. if is_function_word r then 1 else diacritics r)"
        using False by (simp add: is_word_opt_def)
      show ?thesis
        unfolding Cons using False scan_at_nonword[OF False, of prev cs'] IH
        by (simp add: single_not_function_word diacritics_def)
    next
      case True
      with 1(2) Cons have np: "\<not> is_word_opt A prev" by simp
      let ?r = "takeWhile (is_word A) (c # cs')" and ?d = "dropWhile (is_word A) (c # cs')"
      have rne: "?r \<noteq> []" using True by simp
      have "length ?d < length cs" using Cons True
        by (simp add: length_dropWhile_le le_imp_less_Suc)
      moreover have "\<not> (is_word_opt A (Some (last ?r)) \<and> ?d \<noteq> [] \<and> is_word A (hd ?d))"
        using hd_dropWhile[of "is_word A" "c # cs'"] by blast
      ultimately have IH: "length (scan A 0 (Some (last ?r)) ?d)
          = (\<Sum>r\<leftarrow>split_runs A [] ?d. if is_function_word r then 1 else diacritics r)"
        using 1(1) by blast
      have sp: "split_runs A [] (c # cs') = ?r # split_runs A [] ?d"
        using split_runs_takeWhile[of A "[]" "c # cs'"] rne by simp
      show ?thesis
        unfolding Cons sp using scan_at_run_start[OF np True, of cs'] IH by simp
    qed
  qed
qed

lemma concat_split_runs: "concat (split_runs A acc cs) = acc @ cs"
  by (induction cs arbitrary: acc) simp_all

lemma diacritics_concat: "diacritics (concat rs) = (\<Sum>r\<leftarrow>rs. diacritics r)"
  by (induction rs) (simp_all add: diacritics_def)

lemma count_le_aux:
  "(\<Sum>r\<leftarrow>rs. if is_function_word r then 1 else diacritics r)
     \<le> (\<Sum>r\<leftarrow>rs. diacritics r) + length (filter is_function_word rs)"
  by (induction rs) simp_all

lemma findall_count: "length (findall A text) = match_count A text"
  unfolding findall_def match_count_def by (rule scan_count) (simp add: is_word_opt_def)

lemma match_count_le_spec_count: "match_count A text \<le> spec_count A text"
proof -
  have "diacritics text = (\<Sum>r\<leftarrow>split_runs A [] text. diacritics r)"
    using diacritics_concat[of "split_runs A [] text"] by (simp add: concat_split_runs)
  then show ?thesis
    unfolding match_count_def spec_count_def using count_le_aux[of "split_runs A [] text"] by simp
qed

lemmas detector_defs =
  detect_language_def findall_def lit_def match_here_def class_matches_def tolower_def
  SPANISH_CLASS_def SPANISH_WORDS_def at_boundary_def is_word_opt_def is_word_def
  latin1_isalnum_def lit_matches_def EXTRA_CASES_def

lemma detect_que: "detect_language A text_que = lit ''English''"
  by (simp add: text_que_def detector_defs)

lemma runs_que: "split_runs A [] text_que = [text_que]"
  by (simp add: text_que_def lit_def is_word_def latin1_isalnum_def)

lemma que_function_word: "is_function_word text_que"
  by (simp add: is_function_word_def SPANISH_WORDS_def text_que_def lit_def lit_matches_def
      tolower_def)

lemma diacritics_que: "diacritics text_que = 1"
  by (simp add: diacritics_def text_que_def lit_def class_matches_def tolower_def SPANISH_CLASS_def)

lemma spec_count_que: "spec_count A text_que = 2"
  by (simp add: spec_count_def runs_que que_function_word diacritics_que)

lemma detect_spanish_example: "detect_language A text_spanish = lit ''Spanish''"
  by (simp add: text_spanish_def detector_defs)

lemma detect_english_example: "detect_language A text_english = lit ''English''"
  by (simp add: text_english_def detector_defs)

lemma languages_differ: "lit ''Spanish'' \<noteq> lit ''English''"
  by (simp add: lit_def)

text \<open>
  Claim C9, as amended. \<open>detect_language\<close> is total and returns Spanish or English: Spanish
  exactly when the number of whole-word matches of the function-word list (without regard
  to case) plus the number of diacritic characters outside those matched words reaches 2,
  and English otherwise. A diacritic inside a matched function word belongs to that match
  and is not counted again, so a text classified as Spanish has at least 2 diacritics
  and whole-word matches taken together, but not conversely. The two sample texts of the
  specification are classified as Spanish and as English.
\<close>

theorem detect_language_threshold:
  "detect_language A text
     = (if 2 \<le> match_count A text then lit ''Spanish'' else lit ''English'')
   \<and> (detect_language A text = lit ''Spanish'' \<longrightarrow> 2 \<le> spec_count A text)
   \<and> detect_language A text_spanish = lit ''Spanish''
   \<and> detect_language A text_english = lit ''English''"
proof (intro conjI impI)
  show d: "detect_language A text
     = (if 2 \<le> match_count A text then lit ''Spanish'' else lit ''English'')"
    by (simp add: detect_language_def findall_count)
  assume "detect_language A text = lit ''Spanish''"
  with d languages_differ have "2 \<le> match_count A text" by (cases "2 \<le> match_count A text") simp_all
  with match_count_le_spec_count[of A "text"] show "2 \<le> spec_count A text" by simp
next
  show "detect_language A text_spanish = lit ''Spanish''" by (rule detect_spanish_example)
  show "detect_language A text_english = lit ''English''" by (rule detect_english_example)
qed

theorem detect_language_threshold_witness:
  "detect_language (\<lambda>c. False) text_spanish = lit ''Spanish''
   \<and> 2 \<le> spec_count (\<lambda>c. False) text_spanish
   \<and> 2 \<le> match_count (\<lambda>c. False) text_spanish
   \<and> detect_language (\<lambda>c. False) text_que = lit ''English''
   \<and> \<not> 2 \<le> match_count (\<lambda>c. False) text_que"
proof -
  let ?A = "\<lambda>c::codepoint. False"
  from detect_language_threshold [of ?A text_spanish]
  have s: "detect_language ?A text_spanish
             = (if 2 \<le> match_count ?A text_spanish then lit ''Spanish'' else lit ''English'')"
    and i: "detect_language ?A text_spanish = lit ''Spanish'' \<longrightarrow> 2 \<le> spec_count ?A text_spanish"
    and e: "detect_language ?A text_spanish = lit ''Spanish''"
    by blast+
  from detect_language_threshold [of ?A text_que]
  have q: "detect_language ?A text_que
             = (if 2 \<le> match_count ?A text_que then lit ''Spanish'' else lit ''English'')"
    by blast
  have m: "2 \<le> match_count ?A text_spanish"
    using s e languages_differ by (cases "2 \<le> match_count ?A text_spanish") simp_all
  have n: "\<not> 2 \<le> match_count ?A text_que"
    using q detect_que[of ?A] languages_differ by (cases "2 \<le> match_count ?A text_que") simp_all
  from e i m n detect_que[of ?A] show ?thesis by blast
qed

text \<open>
  Claim C9 as stated fails: the text \<open>que\<close> with an acute accent has one diacritic character
  and one whole-word match, a count of 2, and is classified as English, because the
  pattern matches the accented word as a whole, once.
\<close>

theorem detect_language_counts_accented_word_once:
  "detect_language (\<lambda>c. False) text_que = lit ''English''
   \<and> spec_count (\<lambda>c. False) text_que = 2"
  by (simp add: detect_que spec_count_que)

end
